theory Spec2Isabelle
  imports
    Main
    "HOL-Library.Word"
    "HOL-Library.Char_ord"
    "HOL-Library.List_Lexorder"
    "HOL-Library.AList"
begin

unbundle bit_operations_syntax

section \<open>Embedding of \<open>script/lvgl_map_tile_converter.py\<close>\<close>

text \<open>
  The converter is a Python script.  Python integers are unbounded, so the colour
  arithmetic is modelled on \<^typ>\<open>int\<close>; bytes that end up in a file are
  \<^typ>\<open>8 word\<close>; exceptions are values of the datatype \<open>exn\<close> and a
  computation that may raise returns \<open>exn + 'a\<close> with \<open>Inl\<close> for the
  exception.
\<close>

type_synonym byte = "8 word"
type_synonym path = string

datatype exn =
    StructError                 \<comment> \<open>\<open>struct.error\<close>: value out of range for the format\<close>
  | ImageError string           \<comment> \<open>whatever \<open>Image.open(...).convert\<close> raises\<close>
  | FileNotFoundError path
  | FileExistsError path
  | NotADirectoryError path
  | IsADirectoryError path
  | DirectoryNotEmpty path      \<comment> \<open>\<open>OSError(ENOTEMPTY)\<close>\<close>
  | InvalidArgument path        \<comment> \<open>\<open>OSError\<close> for a path that names no entry\<close>
  | NoSpaceLeft path            \<comment> \<open>\<open>OSError(ENOSPC)\<close>\<close>

subsection \<open>\<open>to_rgb565\<close> (lines 14-15)\<close>

definition to_rgb565 :: "int \<Rightarrow> int \<Rightarrow> int \<Rightarrow> int" where
  "to_rgb565 r g b = push_bit 8 (r AND 0xF8) OR push_bit 3 (g AND 0xFC) OR drop_bit 3 b"

subsection \<open>\<open>struct.pack\<close> for the two formats the script uses\<close>

text \<open>
  \<open>struct.pack("<B", v)\<close> and \<open>struct.pack("<H", v)\<close> raise \<open>struct.error\<close>
  when \<open>v\<close> is outside the unsigned range of the format; otherwise they give the
  one byte, respectively the two bytes in little-endian order.
\<close>

definition pack_B :: "int \<Rightarrow> exn + byte list" where
  "pack_B v = (if 0 \<le> v \<and> v \<le> 255 then Inr [word_of_int v] else Inl StructError)"

definition pack_H :: "int \<Rightarrow> exn + byte list" where
  "pack_H v =
     (if 0 \<le> v \<and> v \<le> 65535 then Inr [word_of_int v, word_of_int (v div 256)]
      else Inl StructError)"

text \<open>
  \<open>buf += struct.pack(...)\<close> repeated: the buffers are appended in order, and the
  first pack that raises ends the computation.
\<close>

fun append_packs :: "(exn + byte list) list \<Rightarrow> exn + byte list" where
  "append_packs [] = Inr []"
| "append_packs (p # ps) =
     (case p of
        Inl e \<Rightarrow> Inl e
      | Inr bs \<Rightarrow> (case append_packs ps of Inl e \<Rightarrow> Inl e | Inr cs \<Rightarrow> Inr (bs @ cs)))"

subsection \<open>The encoding part of \<open>make_lvgl_bin\<close> (lines 32-54)\<close>

text \<open>
  \<open>Image.open(png_path).convert("RGB")\<close> yields an image whose \<open>size\<close> is a pair
  of non-negative integers and whose pixel access object maps \<open>(x, y)\<close> to a triple
  of 8-bit channel values.
\<close>

record image =
  im_size :: "nat \<times> nat"
  im_pixels :: "nat \<times> nat \<Rightarrow> byte \<times> byte \<times> byte"

definition lvgl_stride :: "nat \<Rightarrow> int" where
  "lvgl_stride w = (int w * 16 + 7) div 8"

definition lvgl_header :: "image \<Rightarrow> exn + byte list" where
  "lvgl_header im =
     (let (w, h) = im_size im;
          stride = lvgl_stride w;
          flags = 0x00;
          color_format = 0x12;
          magic = 0x19
      in append_packs
           [pack_B magic, pack_B color_format, pack_H flags,
            pack_H (int w), pack_H (int h), pack_H stride, pack_H 0])"

definition lvgl_pixel :: "image \<Rightarrow> nat \<Rightarrow> nat \<Rightarrow> exn + byte list" where
  "lvgl_pixel im y x =
     (let (r, g, b) = im_pixels im (x, y);
          rgb565 = to_rgb565 (uint r) (uint g) (uint b)
      in pack_H rgb565)"

definition lvgl_body :: "image \<Rightarrow> exn + byte list" where
  "lvgl_body im =
     (let (w, h) = im_size im
      in append_packs (map (\<lambda>y. append_packs (map (lvgl_pixel im y) [0..<w])) [0..<h]))"

text \<open>The two buffers that \<open>make_lvgl_bin\<close> holds when it reaches line 56.\<close>

definition lvgl_buffers :: "image \<Rightarrow> exn + (byte list \<times> byte list)" where
  "lvgl_buffers im =
     (case lvgl_header im of
        Inl e \<Rightarrow> Inl e
      | Inr header \<Rightarrow> (case lvgl_body im of Inl e \<Rightarrow> Inl e | Inr body \<Rightarrow> Inr (header, body)))"


subsection \<open>Strings\<close>

text \<open>
  A Python \<open>str\<close> is a sequence of code points.  The model keeps the code points
  below 256 (the Latin-1 range), one \<^typ>\<open>char\<close> each, and gives the string
  methods the script calls their Python meaning on that range: \<open>str.lower\<close>
  maps \<open>A\<close>-\<open>Z\<close> and the accented capitals \<open>0xC0\<close>-\<open>0xDE\<close>
  (except the multiplication sign \<open>0xD7\<close>) to the letter 32 places further on;
  \<open>str.isdigit\<close> holds of the non-empty strings all of whose characters have the
  Unicode property \<open>Numeric_Type = Digit\<close> or \<open>Decimal\<close>, which below 256
  are \<open>0\<close>-\<open>9\<close> and the superscripts \<open>0xB2\<close>, \<open>0xB3\<close>, \<open>0xB9\<close>.
\<close>

definition char_lower :: "char \<Rightarrow> char" where
  "char_lower c =
     (let n = (of_char c :: nat)
      in if (65 \<le> n \<and> n \<le> 90) \<or> (192 \<le> n \<and> n \<le> 222 \<and> n \<noteq> 215)
         then char_of (n + 32) else c)"

definition str_lower :: "string \<Rightarrow> string" where
  "str_lower s = map char_lower s"

definition char_isdigit :: "char \<Rightarrow> bool" where
  "char_isdigit c =
     (let n = (of_char c :: nat)
      in (48 \<le> n \<and> n \<le> 57) \<or> n = 178 \<or> n = 179 \<or> n = 185)"

definition str_isdigit :: "string \<Rightarrow> bool" where
  "str_isdigit s = (s \<noteq> [] \<and> list_all char_isdigit s)"

definition str_endswith :: "string \<Rightarrow> string \<Rightarrow> bool" where
  "str_endswith s t = (length t \<le> length s \<and> drop (length s - length t) s = t)"

definition str_startswith :: "string \<Rightarrow> string \<Rightarrow> bool" where
  "str_startswith s t = (take (length t) s = t)"

text \<open>\<open>s.rfind(c)\<close> for a single character: the last index of \<open>c\<close>, or \<open>-1\<close>.\<close>

definition str_rfind :: "string \<Rightarrow> char \<Rightarrow> int" where
  "str_rfind s c =
     (if c \<in> set s then int (length s) - 1 - int (length (takeWhile (\<lambda>d. d \<noteq> c) (rev s)))
      else - 1)"

text \<open>\<open>s.rstrip(c)\<close> for a single character.\<close>

definition str_rstrip :: "string \<Rightarrow> char \<Rightarrow> string" where
  "str_rstrip s c = rev (dropWhile (\<lambda>d. d = c) (rev s))"

subsection \<open>\<open>os.path\<close> on POSIX\<close>

text \<open>
  \<open>posixpath.splitext\<close>: the extension starts at the last dot of the last path
  component, unless every character of the component before that dot is a dot too
  (a leading-dot name such as \<open>.png\<close> has no extension).
\<close>

definition os_path_splitext :: "path \<Rightarrow> string \<times> string" where
  "os_path_splitext p =
     (let sepIndex = str_rfind p CHR ''/'';
          dotIndex = str_rfind p CHR ''.''
      in if dotIndex > sepIndex \<and>
            filter (\<lambda>c. c \<noteq> CHR ''.'') (drop (nat (sepIndex + 1)) (take (nat dotIndex) p)) \<noteq> []
         then (take (nat dotIndex) p, drop (nat dotIndex) p)
         else (p, []))"

text \<open>\<open>posixpath.join(a, *p)\<close>: one round of its loop, and the loop.\<close>

definition join_step :: "path \<Rightarrow> path \<Rightarrow> path" where
  "join_step path b =
     (if str_startswith b ''/'' then b
      else if path = [] \<or> str_endswith path ''/'' then path @ b
      else path @ ''/'' @ b)"

definition os_path_join :: "path \<Rightarrow> path list \<Rightarrow> path" where
  "os_path_join a ps = foldl join_step a ps"

text \<open>\<open>posixpath.split\<close> and \<open>posixpath.dirname\<close>.\<close>

definition os_path_split :: "path \<Rightarrow> path \<times> path" where
  "os_path_split p =
     (let i = nat (str_rfind p CHR ''/'' + 1);
          head = take i p;
          tail = drop i p
      in (if head \<noteq> [] \<and> head \<noteq> replicate (length head) CHR ''/''
          then str_rstrip head CHR ''/'' else head, tail))"

definition os_path_dirname :: "path \<Rightarrow> path" where
  "os_path_dirname p = fst (os_path_split p)"

subsection \<open>\<open>clean_tile_name\<close> (lines 19-26)\<close>

definition tile_extensions :: "string list" where
  "tile_extensions = [''.png'', ''.bin'', ''.jpg'', ''.jpeg'']"

text \<open>
  The state of the \<open>while True\<close> loop is the pair of \<open>name\<close> and \<open>filename\<close>;
  \<open>clean_loop\<close> is the loop from its head.
\<close>

lemma os_path_splitext_append: "fst (os_path_splitext p) @ snd (os_path_splitext p) = p"
  by (simp add: os_path_splitext_def Let_def)

lemma splitext_shorter:
  assumes "snd (os_path_splitext p) \<noteq> []"
  shows "length (fst (os_path_splitext p)) < length p"
proof -
  have "length (fst (os_path_splitext p)) + length (snd (os_path_splitext p)) = length p"
    using os_path_splitext_append [of p] by (metis length_append)
  with assms show ?thesis by (cases "snd (os_path_splitext p)") simp_all
qed

function clean_loop :: "string \<Rightarrow> string \<Rightarrow> string" where
  "clean_loop name filename =
     (if str_lower (snd (os_path_splitext name)) \<notin> set tile_extensions then filename
      else clean_loop (fst (os_path_splitext name)) (fst (os_path_splitext name)))"
  by pat_completeness auto
termination
proof (relation "measure (\<lambda>(name, filename). length name)")
  show "wf (measure (\<lambda>(name, filename). length name))" by simp
next
  fix name filename :: string
  assume "\<not> str_lower (snd (os_path_splitext name)) \<notin> set tile_extensions"
  then have "snd (os_path_splitext name) \<noteq> []"
    by (auto simp: str_lower_def tile_extensions_def)
  then show "((fst (os_path_splitext name), fst (os_path_splitext name)), (name, filename))
          \<in> measure (\<lambda>(name, filename). length name)"
    by (simp add: splitext_shorter)
qed

declare clean_loop.simps [simp del]

definition clean_tile_name :: "string \<Rightarrow> string" where
  "clean_tile_name filename = clean_loop filename filename"


subsection \<open>Path resolution\<close>

text \<open>
  The system resolves a path component by component.  Empty components (from
  repeated or trailing slashes) and \<open>.\<close> change nothing; \<open>..\<close> steps back to the
  directory above, except at the root, and is kept where it leads above the current
  directory.  \<open>canonical p\<close> is the spelling that remains: the proper names joined
  by single slashes, after a slash when the path is absolute.  The current directory
  is the empty canonical path.  Two spellings name the same object when their
  canonical paths agree.

  \<open>..\<close> is resolved on the spelling alone, which is what the system does when the
  components before it name directories that are there; links are not part of the
  model, nor is the absolute path of the current directory.
\<close>

fun split_sep :: "char \<Rightarrow> string \<Rightarrow> string list" where
  "split_sep c [] = [[]]"
| "split_sep c (x # xs) =
     (if x = c then [] # split_sep c xs
      else (case split_sep c xs of [] \<Rightarrow> [[x]] | w # ws \<Rightarrow> (x # w) # ws))"

definition push_component :: "bool \<Rightarrow> string list \<Rightarrow> string \<Rightarrow> string list" where
  "push_component absolute comps c =
     (if c \<noteq> ''..'' then comps @ [c]
      else if comps = [] then (if absolute then [] else [''..''])
      else if last comps = ''..'' then comps @ [''..'']
      else butlast comps)"

definition path_components :: "path \<Rightarrow> string list" where
  "path_components p =
     foldl (push_component (str_startswith p ''/'')) []
       (filter (\<lambda>c. c \<noteq> [] \<and> c \<noteq> ''.'') (split_sep CHR ''/'' p))"

fun join_components :: "string list \<Rightarrow> path" where
  "join_components [] = []"
| "join_components [c] = c"
| "join_components (c # d # cs) = c @ ''/'' @ join_components (d # cs)"

definition canonical :: "path \<Rightarrow> path" where
  "canonical p =
     (if str_startswith p ''/'' then ''/'' else []) @ join_components (path_components p)"

text \<open>
  The current directory, the root and the directories above the current directory
  are always there; \<open>is_anchor p\<close> holds when \<open>p\<close> resolves to one of them.
\<close>

definition is_anchor :: "path \<Rightarrow> bool" where
  "is_anchor p = list_all (\<lambda>c. c = ''..'') (path_components p)"

text \<open>
  \<open>names_entry p\<close>: the last component of \<open>p\<close> that is not empty is a proper name,
  neither \<open>.\<close> nor \<open>..\<close>, so \<open>p\<close> names an entry of a directory.  A path that does
  not, or that ends in a slash, can only be the path of a directory.
\<close>

definition names_entry :: "path \<Rightarrow> bool" where
  "names_entry p =
     (case rev (filter (\<lambda>c. c \<noteq> []) (split_sep CHR ''/'' p)) of
        [] \<Rightarrow> False
      | c # _ \<Rightarrow> c \<noteq> ''.'' \<and> c \<noteq> ''..'')"

definition needs_directory :: "path \<Rightarrow> bool" where
  "needs_directory p = (\<not> names_entry p \<or> str_endswith p ''/'')"

subsection \<open>The file system\<close>

text \<open>
  The file system is a finite table from canonical paths to nodes.  Every call
  resolves the path it is given and looks the canonical path up; the empty path
  resolves to nothing.  The entries of a directory are the keys of the table that
  name an entry and whose \<open>dirname\<close> is the directory's canonical path.  Links,
  permissions and other processes are not part of the model.
\<close>

datatype node = RegFile "byte list" | Directory

type_synonym filesystem = "(path \<times> node) list"

definition fs_lookup :: "filesystem \<Rightarrow> path \<Rightarrow> node option" where
  "fs_lookup fs p =
     (if p = [] then None
      else if is_anchor p then Some Directory
      else map_of fs (canonical p))"

text \<open>The node at a canonical path, which may be empty: the current directory.\<close>

definition node_at :: "filesystem \<Rightarrow> path \<Rightarrow> node option" where
  "node_at fs c = (if is_anchor c then Some Directory else map_of fs c)"

definition os_path_exists :: "filesystem \<Rightarrow> path \<Rightarrow> bool" where
  "os_path_exists fs p =
     (case fs_lookup fs p of
        None \<Rightarrow> False
      | Some Directory \<Rightarrow> True
      | Some (RegFile _) \<Rightarrow> \<not> needs_directory p)"

definition os_path_isdir :: "filesystem \<Rightarrow> path \<Rightarrow> bool" where
  "os_path_isdir fs p = (fs_lookup fs p = Some Directory)"

definition os_path_isfile :: "filesystem \<Rightarrow> path \<Rightarrow> bool" where
  "os_path_isfile fs p =
     (case fs_lookup fs p of Some (RegFile _) \<Rightarrow> \<not> needs_directory p | _ \<Rightarrow> False)"

definition dir_entries :: "filesystem \<Rightarrow> path \<Rightarrow> string list" where
  "dir_entries fs p =
     map (\<lambda>q. snd (os_path_split q))
       (filter (\<lambda>q. canonical q = q \<and> names_entry q \<and> os_path_dirname q = canonical p)
          (remdups (map fst fs)))"

definition os_listdir :: "filesystem \<Rightarrow> path \<Rightarrow> exn + string list" where
  "os_listdir fs p =
     (case fs_lookup fs p of
        None \<Rightarrow> Inl (FileNotFoundError p)
      | Some (RegFile _) \<Rightarrow> Inl (NotADirectoryError p)
      | Some Directory \<Rightarrow> Inr (dir_entries fs p))"

text \<open>The error, if any, that the directory above \<open>p\<close> gives to a call that makes \<open>p\<close>.\<close>

definition parent_error :: "filesystem \<Rightarrow> path \<Rightarrow> exn option" where
  "parent_error fs p =
     (case node_at fs (os_path_dirname (canonical p)) of
        None \<Rightarrow> Some (FileNotFoundError p)
      | Some (RegFile _) \<Rightarrow> Some (NotADirectoryError p)
      | Some Directory \<Rightarrow> None)"

definition os_mkdir :: "filesystem \<Rightarrow> path \<Rightarrow> exn + filesystem" where
  "os_mkdir fs p =
     (if fs_lookup fs p \<noteq> None then Inl (FileExistsError p)
      else if \<not> names_entry p then Inl (FileNotFoundError p)
      else (case parent_error fs p of
              Some e \<Rightarrow> Inl e
            | None \<Rightarrow> Inr (AList.update (canonical p) Directory fs)))"

text \<open>
  \<open>os.rmdir\<close> removes a directory only when it is empty, and never through a path
  that ends in \<open>.\<close> or \<open>..\<close> or is the root.
\<close>

definition os_rmdir :: "filesystem \<Rightarrow> path \<Rightarrow> exn + filesystem" where
  "os_rmdir fs p =
     (case fs_lookup fs p of
        None \<Rightarrow> Inl (FileNotFoundError p)
      | Some (RegFile _) \<Rightarrow> Inl (NotADirectoryError p)
      | Some Directory \<Rightarrow>
          if \<not> names_entry p then Inl (InvalidArgument p)
          else if dir_entries fs p \<noteq> [] then Inl (DirectoryNotEmpty p)
          else Inr (AList.delete (canonical p) fs))"

text \<open>
  \<open>os.makedirs(name, exist_ok=True)\<close>, after the standard library: the parent is
  made first when it is missing, a \<open>FileExistsError\<close> from that is passed over, and
  the final \<open>mkdir\<close> may fail as long as \<open>name\<close> is a directory afterwards.
\<close>

definition makedirs_head_tail :: "path \<Rightarrow> path \<times> path" where
  "makedirs_head_tail name =
     (let (head, tail) = os_path_split name
      in if tail = [] then os_path_split head else (head, tail))"

definition mkdir_exist_ok :: "filesystem \<Rightarrow> path \<Rightarrow> exn option \<times> filesystem" where
  "mkdir_exist_ok fs name =
     (case os_mkdir fs name of
        Inr fs' \<Rightarrow> (None, fs')
      | Inl e \<Rightarrow> if os_path_isdir fs name then (None, fs) else (Some e, fs))"

lemma length_str_rstrip: "length (str_rstrip s c) \<le> length s"
  using length_dropWhile_le [of "\<lambda>d. d = c" "rev s"] by (simp add: str_rstrip_def)

lemma length_os_path_split:
  "length (fst (os_path_split p)) + length (snd (os_path_split p)) \<le> length p"
proof -
  define i where "i = nat (str_rfind p CHR ''/'' + 1)"
  have "length (str_rstrip (take i p) CHR ''/'') \<le> length (take i p)"
    by (rule length_str_rstrip)
  then show ?thesis
    by (auto simp: os_path_split_def Let_def i_def)
qed

lemma length_makedirs_head:
  assumes "snd (makedirs_head_tail name) \<noteq> []"
  shows "length (fst (makedirs_head_tail name)) < length name"
proof -
  obtain head tail where s: "os_path_split name = (head, tail)"
    by (cases "os_path_split name")
  have l: "length head + length tail \<le> length name"
    using length_os_path_split [of name] by (simp add: s)
  show ?thesis
  proof (cases "tail = []")
    case True
    then have m: "makedirs_head_tail name = os_path_split head"
      by (simp add: makedirs_head_tail_def s)
    have "length (fst (os_path_split head)) + length (snd (os_path_split head)) \<le> length head"
      by (rule length_os_path_split)
    moreover obtain c cs where "snd (os_path_split head) = c # cs"
      using assms by (cases "snd (os_path_split head)") (simp_all add: m)
    ultimately show ?thesis using l by (simp add: m)
  next
    case False
    then have "makedirs_head_tail name = (head, tail)"
      by (simp add: makedirs_head_tail_def s)
    with False l show ?thesis by (cases tail) simp_all
  qed
qed

function os_makedirs :: "filesystem \<Rightarrow> path \<Rightarrow> exn option \<times> filesystem" where
  "os_makedirs fs name =
     (if fst (makedirs_head_tail name) \<noteq> [] \<and> snd (makedirs_head_tail name) \<noteq> [] \<and>
         \<not> os_path_exists fs (fst (makedirs_head_tail name))
      then (case os_makedirs fs (fst (makedirs_head_tail name)) of
              (Some (FileExistsError q), fs1) \<Rightarrow>
                if snd (makedirs_head_tail name) = ''.'' then (None, fs1)
                else mkdir_exist_ok fs1 name
            | (Some e, fs1) \<Rightarrow> (Some e, fs1)
            | (None, fs1) \<Rightarrow>
                if snd (makedirs_head_tail name) = ''.'' then (None, fs1)
                else mkdir_exist_ok fs1 name)
      else mkdir_exist_ok fs name)"
  by pat_completeness auto
termination
  by (relation "measure (\<lambda>(fs, name). length name)") (simp_all add: length_makedirs_head)

declare os_makedirs.simps [simp del]

subsection \<open>The world of a run: file system, free space, standard output\<close>

text \<open>
  Writing can fail for want of space.  \<open>free_space\<close> is the number of bytes the
  device still takes; a write stores as much of its data as fits and raises
  \<open>OSError\<close> when that is not all of it.  Writes are not buffered in the model.
  The lines the script prints are kept as values of \<open>line\<close>.
\<close>

datatype line =
    Print_Fix path              \<comment> \<open>\<open>[Fix] Removing incorrect folder: ...\<close>\<close>
  | Print_OK path path          \<comment> \<open>\<open>[OK] png_path -> bin_path\<close>\<close>
  | Print_Failed path exn       \<comment> \<open>\<open>[Error] Failed to convert inp -> e\<close>\<close>
  | Print_Skip path             \<comment> \<open>\<open>[Skip] output_path\<close>\<close>
  | Print_Root_Not_Found path   \<comment> \<open>\<open>[ERROR] 'INPUT_ROOT' not found.\<close>\<close>
  | Print_Nothing_To_Do         \<comment> \<open>\<open>[INFO] Nothing to do.\<close>\<close>
  | Print_Converting nat int    \<comment> \<open>\<open>[INFO] Converting n tiles with jobs thread(s)...\<close>\<close>

record world =
  filesys :: filesystem
  free_space :: nat
  stdout :: "line list"

type_synonym step = "world \<Rightarrow> exn option \<times> world"

text \<open>Statements in sequence: the first one that raises ends the sequence.\<close>

fun run_steps :: "step list \<Rightarrow> step" where
  "run_steps [] w = (None, w)"
| "run_steps (s # ss) w =
     (case s w of (Some e, w') \<Rightarrow> (Some e, w') | (None, w') \<Rightarrow> run_steps ss w')"

definition print_line :: "line \<Rightarrow> step" where
  "print_line l w = (None, w\<lparr>stdout := stdout w @ [l]\<rparr>)"

definition makedirs_step :: "path \<Rightarrow> step" where
  "makedirs_step p w = (case os_makedirs (filesys w) p of (r, fs') \<Rightarrow> (r, w\<lparr>filesys := fs'\<rparr>))"

definition rmdir_step :: "path \<Rightarrow> step" where
  "rmdir_step p w =
     (case os_rmdir (filesys w) p of Inl e \<Rightarrow> (Some e, w) | Inr fs' \<Rightarrow> (None, w\<lparr>filesys := fs'\<rparr>))"

text \<open>
  \<open>open(p, "wb")\<close> creates the file or truncates it to length 0; \<open>f.write(data)\<close>
  appends to the file opened at \<open>p\<close>.
\<close>

definition open_wb :: "path \<Rightarrow> step" where
  "open_wb p w =
     (case fs_lookup (filesys w) p of
        Some Directory \<Rightarrow> (Some (IsADirectoryError p), w)
      | Some (RegFile old) \<Rightarrow>
          if needs_directory p then (Some (IsADirectoryError p), w)
          else (None, w\<lparr>filesys := AList.update (canonical p) (RegFile []) (filesys w),
                        free_space := free_space w + length old\<rparr>)
      | None \<Rightarrow>
          if p = [] then (Some (FileNotFoundError p), w)
          else if needs_directory p then (Some (IsADirectoryError p), w)
          else (case parent_error (filesys w) p of
                  Some e \<Rightarrow> (Some e, w)
                | None \<Rightarrow>
                    (None, w\<lparr>filesys := AList.update (canonical p) (RegFile []) (filesys w)\<rparr>)))"

definition file_write :: "path \<Rightarrow> byte list \<Rightarrow> step" where
  "file_write p data w =
     (case fs_lookup (filesys w) p of
        Some (RegFile old) \<Rightarrow>
          (let n = min (length data) (free_space w)
           in (if n < length data then Some (NoSpaceLeft p) else None,
               w\<lparr>filesys := AList.update (canonical p) (RegFile (old @ take n data)) (filesys w),
                 free_space := free_space w - n\<rparr>))
      | _ \<Rightarrow> (Some (FileNotFoundError p), w))"

subsection \<open>\<open>make_lvgl_bin\<close> (lines 30-67)\<close>

text \<open>
  \<open>Image.open(png_path).convert("RGB")\<close> belongs to the imaging library; the model
  takes it as the parameter \<open>image_open\<close>, which reads the file system and either
  raises or returns the decoded image.
\<close>

type_synonym pixel_source = "filesystem \<Rightarrow> path \<Rightarrow> exn + image"

text \<open>Lines 58-61.\<close>

definition remove_stray_dir :: "path \<Rightarrow> step" where
  "remove_stray_dir bin_path w =
     (if os_path_isdir (filesys w) bin_path
      then run_steps [print_line (Print_Fix bin_path), rmdir_step bin_path] w
      else (None, w))"

definition make_lvgl_bin :: "pixel_source \<Rightarrow> path \<Rightarrow> path \<Rightarrow> step" where
  "make_lvgl_bin image_open png_path bin_path w =
     (case image_open (filesys w) png_path of
        Inl e \<Rightarrow> (Some e, w)
      | Inr im \<Rightarrow>
          (case lvgl_buffers im of
             Inl e \<Rightarrow> (Some e, w)
           | Inr (header, body) \<Rightarrow>
               run_steps
                 [makedirs_step (os_path_dirname bin_path),
                  remove_stray_dir bin_path,
                  open_wb bin_path,
                  file_write bin_path header,
                  file_write bin_path body,
                  print_line (Print_OK png_path bin_path)] w))"

subsection \<open>\<open>_iter_tile_paths\<close> (lines 71-89)\<close>

text \<open>
  \<open>INPUT_ROOT\<close> and \<open>OUTPUT_ROOT\<close> are set once, from the command line, before
  anything else runs; the model passes them along as a record.
\<close>

record roots =
  input_root :: path
  output_root :: path

text \<open>
  A generator is modelled by the list of what it yields and the exception, if any,
  that ends it.  \<open>for_yield body xs\<close> is a \<open>for\<close> loop over \<open>xs\<close> inside a
  generator; a round that yields nothing and raises nothing is a \<open>continue\<close>.
\<close>

fun for_yield :: "('a \<Rightarrow> 'b list \<times> exn option) \<Rightarrow> 'a list \<Rightarrow> 'b list \<times> exn option" where
  "for_yield body [] = ([], None)"
| "for_yield body (x # xs) =
     (case body x of
        (ys, Some e) \<Rightarrow> (ys, Some e)
      | (ys, None) \<Rightarrow> (case for_yield body xs of (zs, r) \<Rightarrow> (ys @ zs, r)))"

definition iter_y_files ::
  "roots \<Rightarrow> string \<Rightarrow> string \<Rightarrow> string list \<Rightarrow> (path \<times> path) list \<times> exn option" where
  "iter_y_files cfg zoom x_tile y_files =
     for_yield
       (\<lambda>y_file.
          if \<not> str_endswith (str_lower y_file) ''.png'' then ([], None)
          else
            let tile_base = clean_tile_name y_file;
                input_path = os_path_join (input_root cfg) [zoom, x_tile, y_file];
                output_path = os_path_join (output_root cfg) [zoom, x_tile, tile_base @ ''.bin'']
            in ([(input_path, output_path)], None))
       (sort y_files)"

definition iter_x_tiles ::
  "roots \<Rightarrow> filesystem \<Rightarrow> string \<Rightarrow> path \<Rightarrow> string list \<Rightarrow> (path \<times> path) list \<times> exn option" where
  "iter_x_tiles cfg fs zoom zoom_path x_tiles =
     for_yield
       (\<lambda>x_tile.
          let x_path = os_path_join zoom_path [x_tile]
          in if \<not> os_path_isdir fs x_path \<or> \<not> str_isdigit x_tile then ([], None)
             else (case os_listdir fs x_path of
                     Inl e \<Rightarrow> ([], Some e)
                   | Inr y_files \<Rightarrow> iter_y_files cfg zoom x_tile y_files))
       (sort x_tiles)"

definition iter_tile_paths :: "roots \<Rightarrow> filesystem \<Rightarrow> (path \<times> path) list \<times> exn option" where
  "iter_tile_paths cfg fs =
     (case os_listdir fs (input_root cfg) of
        Inl e \<Rightarrow> ([], Some e)
      | Inr zooms \<Rightarrow>
          for_yield
            (\<lambda>zoom.
               let zoom_path = os_path_join (input_root cfg) [zoom]
               in if \<not> os_path_isdir fs zoom_path \<or> \<not> str_isdigit zoom then ([], None)
                  else (case os_listdir fs zoom_path of
                          Inl e \<Rightarrow> ([], Some e)
                        | Inr x_tiles \<Rightarrow> iter_x_tiles cfg fs zoom zoom_path x_tiles))
            (sort zooms))"

subsection \<open>\<open>convert_all_tiles\<close> (lines 92-135)\<close>

text \<open>Lines 103-108: the task list, and the \<open>[Skip]\<close> lines printed on the way.\<close>

fun plan_tasks :: "bool \<Rightarrow> (path \<times> path) list \<Rightarrow> world \<Rightarrow> (path \<times> path) list \<times> world" where
  "plan_tasks force [] w = ([], w)"
| "plan_tasks force ((input_path, output_path) # rest) w =
     (if \<not> force \<and> os_path_isfile (filesys w) output_path
      then plan_tasks force rest (snd (print_line (Print_Skip output_path) w))
      else (case plan_tasks force rest w of
              (tasks, w') \<Rightarrow> ((input_path, output_path) # tasks, w')))"

text \<open>Lines 119-122: one round of the serial loop, \<open>try\<close> and \<open>except Exception\<close>.\<close>

definition run_task :: "pixel_source \<Rightarrow> path \<times> path \<Rightarrow> world \<Rightarrow> world" where
  "run_task image_open task w =
     (case task of (inp, outp) \<Rightarrow>
        (case make_lvgl_bin image_open inp outp w of
           (None, w') \<Rightarrow> w'
         | (Some e, w') \<Rightarrow> snd (print_line (Print_Failed inp e) w')))"

text \<open>Lines 118-122: the serial path.\<close>

fun serial_path :: "pixel_source \<Rightarrow> (path \<times> path) list \<Rightarrow> world \<Rightarrow> world" where
  "serial_path image_open [] w = w"
| "serial_path image_open (task # rest) w =
     serial_path image_open rest (run_task image_open task w)"

text \<open>
  The threaded path (lines 126-135) hands the tasks to a thread pool of the standard
  library; the model takes what the pool does to the world as the parameter \<open>pool\<close>.
\<close>

definition convert_all_tiles ::
  "pixel_source \<Rightarrow> (int \<Rightarrow> (path \<times> path) list \<Rightarrow> world \<Rightarrow> world) \<Rightarrow> roots \<Rightarrow>
   int \<Rightarrow> bool \<Rightarrow> step" where
  "convert_all_tiles image_open pool cfg jobs force w =
     (if \<not> os_path_isdir (filesys w) (input_root cfg)
      then print_line (Print_Root_Not_Found (input_root cfg)) w
      else
        (case iter_tile_paths cfg (filesys w) of (pairs, raised) \<Rightarrow>
           (case plan_tasks force pairs w of (tasks, w1) \<Rightarrow>
              (case raised of
                 Some e \<Rightarrow> (Some e, w1)
               | None \<Rightarrow>
                   if tasks = [] then print_line Print_Nothing_To_Do w1
                   else
                     let w2 = snd (print_line (Print_Converting (length tasks) jobs) w1)
                     in if jobs \<le> 1 then (None, serial_path image_open tasks w2)
                        else (None, pool jobs tasks w2)))))"


section \<open>The tile format as the specification states it\<close>

text \<open>
  The header of section 4.2 of the specification, byte by byte, for width \<open>w\<close> and
  height \<open>h\<close>; the two-byte little-endian RGB565 value of the pixel in column
  \<open>x\<close> of row \<open>y\<close>; and the body, row after row, each row column after column.
\<close>

definition spec_header :: "nat \<Rightarrow> nat \<Rightarrow> byte list" where
  "spec_header w h =
     [0x19, 0x12, 0x00, 0x00,
      of_nat (w mod 256), of_nat (w div 256),
      of_nat (h mod 256), of_nat (h div 256),
      of_nat ((w * 2) mod 256), of_nat ((w * 2) div 256),
      0x00, 0x00]"

definition spec_pixel :: "image \<Rightarrow> nat \<Rightarrow> nat \<Rightarrow> byte list" where
  "spec_pixel im x y =
     (case im_pixels im (x, y) of (r, g, b) \<Rightarrow>
        [word_of_int (to_rgb565 (uint r) (uint g) (uint b) mod 256),
         word_of_int (to_rgb565 (uint r) (uint g) (uint b) div 256)])"

definition spec_body :: "image \<Rightarrow> nat \<Rightarrow> nat \<Rightarrow> byte list" where
  "spec_body im w h = concat (map (\<lambda>y. concat (map (\<lambda>x. spec_pixel im x y) [0..<w])) [0..<h])"

text \<open>
  The name normalizer of section 4.3: while the last extension, compared without
  regard to case, is one of \<open>png\<close>, \<open>bin\<close>, \<open>jpg\<close>, \<open>jpeg\<close>, strip it.  The
  last extension of a name is the one \<open>os.path.splitext\<close> splits off.
\<close>

definition spec_recognized :: "string \<Rightarrow> bool" where
  "spec_recognized ext =
     (case ext of
        [] \<Rightarrow> False
      | c # e \<Rightarrow> c = CHR ''.'' \<and> str_lower e \<in> set [''png'', ''bin'', ''jpg'', ''jpeg''])"

function spec_normalize :: "string \<Rightarrow> string" where
  "spec_normalize s =
     (if spec_recognized (snd (os_path_splitext s))
      then spec_normalize (fst (os_path_splitext s))
      else s)"
  by pat_completeness auto
termination
  by (relation "measure length")
    (auto simp: spec_recognized_def splitext_shorter split: list.splits)

declare spec_normalize.simps [simp del]

text \<open>
  A name, as a directory listing gives it, is not empty and has no slash.
  \<open>root_prefix r\<close> is what \<open>os.path.join\<close> puts before the first joined name: the
  root and one slash, unless the root is empty or ends in a slash already.
\<close>

definition is_name :: "string \<Rightarrow> bool" where
  "is_name n = (n \<noteq> [] \<and> CHR ''/'' \<notin> set n)"

definition root_prefix :: "path \<Rightarrow> path" where
  "root_prefix r = (if r = [] \<or> last r = CHR ''/'' then r else r @ ''/'')"

text \<open>
  File systems to run discovery on: a tree with numeric and other directories; a
  directory with two files whose names differ in the case of the extension; and a
  tree whose zoom directory is named by the superscript two.
\<close>

definition sample_roots :: roots where
  "sample_roots = \<lparr>input_root = ''in'', output_root = ''out''\<rparr>"

text \<open>The same roots as a command line may spell them.\<close>

definition slash_roots :: roots where
  "slash_roots = \<lparr>input_root = ''in/'', output_root = ''out/''\<rparr>"


definition sample_tree :: filesystem where
  "sample_tree =
     [(''in'', Directory),
      (''in/0'', Directory), (''in/0/1'', Directory), (''in/0/1/2.png'', RegFile []),
      (''in/abc'', Directory), (''in/abc/1'', Directory), (''in/abc/1/2.png'', RegFile []),
      (''in/7'', RegFile []),
      (''in/10'', Directory), (''in/10/3'', Directory),
      (''in/10/3/x.bin.png'', RegFile []), (''in/10/3/notes.txt'', RegFile []),
      (''in/10/y'', Directory), (''in/10/y/5.png'', RegFile [])]"

definition case_tree :: filesystem where
  "case_tree =
     [(''in'', Directory), (''in/0'', Directory), (''in/0/1'', Directory),
      (''in/0/1/2.png'', RegFile []), (''in/0/1/2.PNG'', RegFile [])]"


text \<open>Two images: the 2 by 1 red and blue tile of section 8, and a tile 32768 wide.\<close>

definition red_blue :: image where
  "red_blue =
     \<lparr>im_size = (2, 1), im_pixels = (\<lambda>(x, y). if x = 0 then (255, 0, 0) else (0, 0, 255))\<rparr>"

definition wide_image :: image where
  "wide_image = \<lparr>im_size = (32768, 1), im_pixels = (\<lambda>_. (0, 0, 0))\<rparr>"

text \<open>
  What a run reports: the \<open>[OK]\<close> and \<open>[Error]\<close> lines carry the source path of
  their task, and the reason when it failed; the other lines report no task.
\<close>

definition report_of :: "line \<Rightarrow> (path \<times> exn option) option" where
  "report_of l =
     (case l of
        Print_OK inp outp \<Rightarrow> Some (inp, None)
      | Print_Failed inp e \<Rightarrow> Some (inp, Some e)
      | _ \<Rightarrow> None)"

definition reports :: "line list \<Rightarrow> (path \<times> exn option) list" where
  "reports ls = List.map_filter report_of ls"

text \<open>A step is silent when the lines it prints report no task.\<close>

definition silent :: "step \<Rightarrow> bool" where
  "silent s = (\<forall>w r w'. s w = (r, w') \<longrightarrow> (\<exists>ls. stdout w' = stdout w @ ls \<and> reports ls = []))"

text \<open>
  Pixel sources and worlds to run the converter on: a source that cannot decode the
  first tile; one that decodes every file to the red and blue tile; one that decodes
  every file to the wide tile; a world with the sample tree; one with 13 bytes of
  free space; one where the destination is an empty directory; one where it is a
  directory with a file in it.
\<close>

definition corrupt_first :: pixel_source where
  "corrupt_first fs p = (if p = ''in/0/1/2.png'' then Inl (ImageError ''corrupt'') else Inr red_blue)"

definition always_red_blue :: pixel_source where
  "always_red_blue fs p = Inr red_blue"

definition always_wide :: pixel_source where
  "always_wide fs p = Inr wide_image"

definition sample_world :: world where
  "sample_world = \<lparr>filesys = sample_tree, free_space = 1000, stdout = []\<rparr>"

definition two_tasks :: "(path \<times> path) list" where
  "two_tasks = [(''in/0/1/2.png'', ''out/0/1/2.bin''), (''in/10/3/x.bin.png'', ''out/10/3/x.bin'')]"

definition no_pool :: "int \<Rightarrow> (path \<times> path) list \<Rightarrow> world \<Rightarrow> world" where
  "no_pool jobs tasks w = w"

definition out_dirs :: filesystem where
  "out_dirs = [(''out'', Directory), (''out/0'', Directory), (''out/0/1'', Directory)]"

definition tight_world :: world where
  "tight_world = \<lparr>filesys = out_dirs, free_space = 13, stdout = []\<rparr>"

definition stray_empty_world :: world where
  "stray_empty_world =
     \<lparr>filesys = out_dirs @ [(''out/0/1/2.bin'', Directory)], free_space = 1000, stdout = []\<rparr>"

definition stray_full_world :: world where
  "stray_full_world =
     \<lparr>filesys = out_dirs @ [(''out/0/1/2.bin'', Directory), (''out/0/1/2.bin/keep.txt'', RegFile [])],
      free_space = 1000, stdout = []\<rparr>"

section \<open>The RGB565 codec\<close>

lemma and_F8: "(r::int) AND 0xF8 = push_bit 3 (take_bit 5 (drop_bit 3 r))"
proof -
  have c: "(0xF8::int) = push_bit 3 (mask 5)" by (simp add: push_bit_eq_mult mask_eq_exp_minus_1)
  show ?thesis unfolding c by (rule bit_eqI) (auto simp add: bit_simps)
qed

lemma and_FC: "(g::int) AND 0xFC = push_bit 2 (take_bit 6 (drop_bit 2 g))"
proof -
  have c: "(0xFC::int) = push_bit 2 (mask 6)" by (simp add: push_bit_eq_mult mask_eq_exp_minus_1)
  have s: "\<And>n. 2 \<le> n \<Longrightarrow> Suc (Suc (n - 2)) = n" by simp
  show ?thesis unfolding c by (rule bit_eqI) (auto simp add: bit_simps s)
qed

lemma to_rgb565_fields:
  "to_rgb565 r g b = push_bit 11 (take_bit 5 (drop_bit 3 r)) OR push_bit 5 (take_bit 6 (drop_bit 2 g)) OR drop_bit 3 b"
  by (simp add: to_rgb565_def and_F8 and_FC)

lemma to_rgb565_sum:
  assumes "0 \<le> b" "b \<le> 255"
  shows "to_rgb565 r g b = push_bit 11 (take_bit 5 (drop_bit 3 r)) + push_bit 5 (take_bit 6 (drop_bit 2 g)) + drop_bit 3 b"
proof -
  have "0 \<le> b div 8" "b div 8 < 2 ^ 5" using assms by auto
  then have b: "drop_bit 3 b = take_bit 5 (drop_bit 3 b)"
    by (simp add: take_bit_int_eq_self drop_bit_eq_div)
  define B where "B = drop_bit 3 b"
  define G where "G = take_bit 6 (drop_bit 2 g)"
  define R where "R = take_bit 5 (drop_bit 3 r)"
  have 1: "push_bit 5 G OR take_bit 5 B = push_bit 5 G + take_bit 5 B"
    by (rule disjunctive_add[symmetric]) (auto simp add: bit_simps)
  have 2: "push_bit 11 R OR (push_bit 5 G + take_bit 5 B)
      = push_bit 11 R + (push_bit 5 G + take_bit 5 B)"
    unfolding 1[symmetric]
    by (rule disjunctive_add[symmetric]) (auto simp add: bit_simps G_def)
  have "to_rgb565 r g b = push_bit 11 R OR push_bit 5 G OR take_bit 5 B"
    unfolding R_def G_def B_def using b by (simp add: to_rgb565_fields)
  then show ?thesis using 1 2 b unfolding R_def G_def B_def by (simp add: or.assoc)
qed

lemma to_rgb565_arith:
  assumes "0 \<le> r" "r \<le> 255" "0 \<le> g" "g \<le> 255" "0 \<le> b" "b \<le> 255"
  shows "to_rgb565 r g b = (r div 8) * 2048 + (g div 4) * 32 + b div 8"
proof -
  have "0 \<le> r div 8" "r div 8 < 2 ^ 5" "0 \<le> g div 4" "g div 4 < 2 ^ 6" using assms by auto
  then have "take_bit 5 (drop_bit 3 r) = r div 8" "take_bit 6 (drop_bit 2 g) = g div 4"
    by (simp_all add: take_bit_int_eq_self drop_bit_eq_div)
  then show ?thesis using assms by (simp add: to_rgb565_sum push_bit_eq_mult drop_bit_eq_div)
qed

lemma to_rgb565_range:
  assumes "0 \<le> r" "r \<le> 255" "0 \<le> g" "g \<le> 255" "0 \<le> b" "b \<le> 255"
  shows "0 \<le> to_rgb565 r g b \<and> to_rgb565 r g b \<le> 65535"
proof -
  have "0 \<le> r div 8" "r div 8 \<le> 31" "0 \<le> g div 4" "g div 4 \<le> 63" "0 \<le> b div 8" "b div 8 \<le> 31" using assms by auto
  then show ?thesis unfolding to_rgb565_arith[OF assms] by linarith
qed

lemma to_rgb565_bits:
  assumes "0 \<le> r" "r \<le> 255" "0 \<le> g" "g \<le> 255" "0 \<le> b" "b \<le> 255"
  shows "drop_bit 11 (to_rgb565 r g b) = drop_bit 3 r"
    and "take_bit 6 (drop_bit 5 (to_rgb565 r g b)) = drop_bit 2 g"
    and "take_bit 5 (to_rgb565 r g b) = drop_bit 3 b"
proof -
  define R where "R = r div 8"
  define G where "G = g div 4"
  define B where "B = b div 8"
  have bounds: "0 \<le> R" "R < 32" "0 \<le> G" "G < 64" "0 \<le> B" "B < 32"
    using assms by (auto simp: R_def G_def B_def)
  have v: "to_rgb565 r g b = R * 2048 + G * 32 + B"
    using assms by (simp add: to_rgb565_arith R_def G_def B_def)
  have "(R * 2048 + G * 32 + B) div 2048 = R" using bounds by simp
  then show "drop_bit 11 (to_rgb565 r g b) = drop_bit 3 r"
    by (simp add: v drop_bit_eq_div R_def)
  have "(R * 2048 + G * 32 + B) div 32 = R * 64 + G" using bounds by simp
  moreover have "(R * 64 + G) mod 64 = G" using bounds by simp
  ultimately show "take_bit 6 (drop_bit 5 (to_rgb565 r g b)) = drop_bit 2 g"
    by (simp add: v drop_bit_eq_div take_bit_eq_mod G_def)
  have "R * 2048 + G * 32 + B = B + 32 * (R * 64 + G)" by simp
  then have "(R * 2048 + G * 32 + B) mod 32 = B" using bounds by (simp del: distrib_left_numeral)
  then show "take_bit 5 (to_rgb565 r g b) = drop_bit 3 b"
    by (simp add: v drop_bit_eq_div take_bit_eq_mod B_def)
qed

text \<open>
  C2.  For channel values \<open>r\<close>, \<open>g\<close>, \<open>b\<close> in \<open>0..255\<close> the codec returns a
  16-bit value whose bits 15-11 are the top five bits of \<open>r\<close>, whose bits 10-5 are
  the top six bits of \<open>g\<close> and whose bits 4-0 are the top five bits of \<open>b\<close>; the
  low bits of each channel are dropped (the quotients are rounded down); black is
  \<open>0x0000\<close> and white is \<open>0xFFFF\<close>.
\<close>

theorem to_rgb565_packs_top_bits:
  assumes "0 \<le> r" "r \<le> 255" "0 \<le> g" "g \<le> 255" "0 \<le> b" "b \<le> 255"
  shows "0 \<le> to_rgb565 r g b \<and> to_rgb565 r g b < 2 ^ 16
       \<and> drop_bit 11 (to_rgb565 r g b) = drop_bit 3 r
       \<and> take_bit 6 (drop_bit 5 (to_rgb565 r g b)) = drop_bit 2 g
       \<and> take_bit 5 (to_rgb565 r g b) = drop_bit 3 b
       \<and> to_rgb565 r g b = (r div 8) * 2048 + (g div 4) * 32 + b div 8
       \<and> to_rgb565 0 0 0 = 0x0000 \<and> to_rgb565 255 255 255 = 0xFFFF"
proof -
  have "to_rgb565 0 0 0 = 0x0000" "to_rgb565 255 255 255 = 0xFFFF"
    by (simp_all add: to_rgb565_def)
  moreover have "0 \<le> to_rgb565 r g b" "to_rgb565 r g b < 2 ^ 16"
    using to_rgb565_range [OF assms] by simp_all
  ultimately show ?thesis
    using to_rgb565_bits [OF assms] to_rgb565_arith [OF assms] by simp
qed

theorem to_rgb565_packs_top_bits_witness:
  "to_rgb565 7 3 7 = 0 \<and> to_rgb565 8 4 8 = 0x0821 \<and> to_rgb565 255 0 0 = 0xF800
   \<and> drop_bit 11 (to_rgb565 200 100 50) = 25
   \<and> take_bit 6 (drop_bit 5 (to_rgb565 200 100 50)) = 25
   \<and> take_bit 5 (to_rgb565 200 100 50) = 6"
  using to_rgb565_packs_top_bits [of 7 3 7] to_rgb565_packs_top_bits [of 8 4 8]
    to_rgb565_packs_top_bits [of 255 0 0] to_rgb565_packs_top_bits [of 200 100 50]
  by (simp add: drop_bit_eq_div)

section \<open>Packing without range errors\<close>

lemma pack_H_ok:
  "0 \<le> v \<Longrightarrow> v \<le> 65535 \<Longrightarrow> pack_H v = Inr [word_of_int v, word_of_int (v div 256)]"
  by (simp add: pack_H_def)

lemma lvgl_stride_eq: "lvgl_stride w = int w * 2"
  by (simp add: lvgl_stride_def)

text \<open>
  C10, as the code has it.  For channel values in \<open>0..255\<close> the codec's value lies
  in \<open>0..65535\<close>, so packing a pixel never raises; packing the width and the
  height does not raise for dimensions below \<open>2^16\<close>; packing the stride, which is
  twice the width, does not raise for a width below \<open>2^15\<close>.
\<close>

theorem packs_in_range:
  assumes "0 \<le> r" "r \<le> 255" "0 \<le> g" "g \<le> 255" "0 \<le> b" "b \<le> 255"
    and "w < 2 ^ 16" "h < 2 ^ 16" "w' < 2 ^ 15"
  shows "0 \<le> to_rgb565 r g b \<and> to_rgb565 r g b \<le> 65535
       \<and> pack_H (to_rgb565 r g b)
           = Inr [word_of_int (to_rgb565 r g b), word_of_int (to_rgb565 r g b div 256)]
       \<and> pack_H (int w) = Inr [of_nat w, word_of_int (int w div 256)]
       \<and> pack_H (int h) = Inr [of_nat h, word_of_int (int h div 256)]
       \<and> pack_H (lvgl_stride w')
           = Inr [word_of_int (lvgl_stride w'), word_of_int (lvgl_stride w' div 256)]"
proof -
  note rng = to_rgb565_range [OF assms(1-6)]
  have "pack_H (to_rgb565 r g b)
          = Inr [word_of_int (to_rgb565 r g b), word_of_int (to_rgb565 r g b div 256)]"
    using rng by (simp add: pack_H_ok)
  moreover have "pack_H (int w) = Inr [of_nat w, word_of_int (int w div 256)]"
    using assms(7) by (simp add: pack_H_def)
  moreover have "pack_H (int h) = Inr [of_nat h, word_of_int (int h div 256)]"
    using assms(8) by (simp add: pack_H_def)
  moreover have "pack_H (lvgl_stride w')
          = Inr [word_of_int (lvgl_stride w'), word_of_int (lvgl_stride w' div 256)]"
    using assms(9) by (intro pack_H_ok) (simp_all add: lvgl_stride_eq)
  ultimately show ?thesis using rng by simp
qed

theorem packs_in_range_witness:
  "pack_H (to_rgb565 255 255 255) = Inr [0xFF, 0xFF] \<and> pack_H (int 65535) = Inr [0xFF, 0xFF]
   \<and> pack_H (lvgl_stride 32767) = Inr [0xFE, 0xFF]"
  using packs_in_range [of 255 255 255 65535 65535 32767]
  by (simp add: to_rgb565_def lvgl_stride_def)

text \<open>
  The stride of a width that fits sixteen bits need not fit: at width 32768 the
  stride is 65536 and \<open>struct.pack("<H", stride)\<close> raises.
\<close>

theorem stride_pack_raises:
  "(32768 :: nat) < 2 ^ 16 \<and> lvgl_stride 32768 = 65536
   \<and> pack_H (lvgl_stride 32768) = Inl StructError"
  by (simp add: lvgl_stride_def pack_H_def)

section \<open>The bytes of a tile\<close>

lemma append_packs_Inr: "append_packs (map (\<lambda>x. Inr (f x)) xs) = Inr (concat (map f xs))"
  by (induction xs) simp_all

lemma append_packs_cong_Inr:
  "(\<And>x. x \<in> set xs \<Longrightarrow> p x = Inr (f x)) \<Longrightarrow> append_packs (map p xs) = Inr (concat (map f xs))"
  by (induction xs) simp_all

lemma uint_byte_range: "0 \<le> uint (c :: byte) \<and> uint c \<le> 255"
  using uint_lt2p [of c] by simp

lemma byte_of_int_mod: "(word_of_int (v mod 256) :: byte) = word_of_int v"
 by (simp add: word_of_int_eq_iff take_bit_eq_mod)

lemma lvgl_pixel_ok: "lvgl_pixel im y x = Inr (spec_pixel im x y)"
proof -
  obtain r g b where p: "im_pixels im (x, y) = (r, g, b)" by (cases "im_pixels im (x, y)")
  have "0 \<le> to_rgb565 (uint r) (uint g) (uint b) \<and> to_rgb565 (uint r) (uint g) (uint b) \<le> 65535"
    using uint_byte_range by (intro to_rgb565_range) simp_all
  then show ?thesis
    by (simp add: lvgl_pixel_def spec_pixel_def p pack_H_ok byte_of_int_mod)
qed

lemma length_spec_pixel: "length (spec_pixel im x y) = 2"
  by (simp add: spec_pixel_def split: prod.splits)

lemma lvgl_body_ok: "im_size im = (w, h) \<Longrightarrow> lvgl_body im = Inr (spec_body im w h)"
proof -
  have row: "\<And>y. append_packs (map (lvgl_pixel im y) [0..<w])
               = Inr (concat (map (\<lambda>x. spec_pixel im x y) [0..<w]))"
    by (rule append_packs_cong_Inr) (simp add: lvgl_pixel_ok)
  assume "im_size im = (w, h)"
  then show ?thesis
    by (simp add: lvgl_body_def spec_body_def row append_packs_Inr)
qed

lemma concat_blocks:
  "(\<And>x. x \<in> set xs \<Longrightarrow> length (f x) = k) \<Longrightarrow> i < length xs \<Longrightarrow>
     take k (drop (i * k) (concat (map f xs))) = f (xs ! i)"
proof (induction xs arbitrary: i)
  case Nil
  then show ?case by simp
next
  case (Cons a xs)
  show ?case
  proof (cases i)
    case 0
    then show ?thesis using Cons.prems by simp
  next
    case (Suc j)
    then show ?thesis using Cons by simp
  qed
qed

lemma length_concat_blocks:
  "(\<And>x. x \<in> set xs \<Longrightarrow> length (f x) = k) \<Longrightarrow> length (concat (map f xs)) = length xs * k"
  by (induction xs) simp_all

lemma length_row: "length (concat (map (\<lambda>x. spec_pixel im x y) [0..<w])) = w * 2"
  using length_concat_blocks [of "[0..<w]" "\<lambda>x. spec_pixel im x y" 2]
  by (simp add: length_spec_pixel)

lemma length_spec_body: "length (spec_body im w h) = w * h * 2"
  unfolding spec_body_def
  using length_concat_blocks [of "[0..<h]" "\<lambda>y. concat (map (\<lambda>x. spec_pixel im x y) [0..<w])" "w * 2"]
  by (simp add: length_row)

lemma spec_body_at:
  assumes "x < w" "y < h"
  shows "take 2 (drop (2 * (y * w + x)) (spec_body im w h)) = spec_pixel im x y"
proof -
  let ?row = "\<lambda>y. concat (map (\<lambda>x. spec_pixel im x y) [0..<w])"
  have row: "take (w * 2) (drop (y * (w * 2)) (spec_body im w h)) = ?row y"
    unfolding spec_body_def
    using concat_blocks [of "[0..<h]" ?row "w * 2" y] assms by (simp add: length_row)
  have px: "take 2 (drop (x * 2) (?row y)) = spec_pixel im x y"
    using concat_blocks [of "[0..<w]" "\<lambda>x. spec_pixel im x y" 2 x] assms
    by (simp add: length_spec_pixel)
  have "take 2 (drop (x * 2) (take (w * 2) (drop (y * (w * 2)) (spec_body im w h))))
      = take 2 (drop (2 * (y * w + x)) (spec_body im w h))"
    using assms by (simp add: drop_take min_def algebra_simps)
  then show ?thesis using row px by simp
qed

lemma byte_of_nat_mod: "(of_nat (n mod 256) :: byte) = of_nat n"
  by (simp add: word_of_nat_eq_iff take_bit_eq_mod)

lemma int_div_numeral: "int n div numeral k = int (n div numeral k)"
  by (simp add: zdiv_int)

lemma lvgl_header_ok:
  assumes "im_size im = (w, h)" "w < 32768" "h < 65536"
  shows "lvgl_header im = Inr (spec_header w h)"
  using assms
  by (simp add: lvgl_header_def spec_header_def lvgl_stride_eq pack_B_def pack_H_def
      byte_of_nat_mod int_div_numeral)

text \<open>
  C1, as the code has it.  For an image of width \<open>w\<close> below \<open>2^15\<close> and height
  \<open>h\<close> below \<open>2^16\<close>, whatever its pixels, the encoder produces the 12-byte
  header of the specification (magic \<open>0x19\<close>, colour format \<open>0x12\<close>, flags 0,
  width, height, stride \<open>w * 2\<close>, reserved 0, the 16-bit fields little-endian)
  and after it, row by row from the top and column by column from the left, the
  two little-endian bytes of each pixel's RGB565 value: the pixel of column \<open>x\<close> in
  row \<open>y\<close> stands at offset \<open>12 + 2 * (y * w + x)\<close>, and the length is
  \<open>12 + w * h * 2\<close>.
\<close>

theorem lvgl_buffers_format:
  assumes "im_size im = (w, h)" "w < 2 ^ 15" "h < 2 ^ 16"
  shows "lvgl_buffers im = Inr (spec_header w h, spec_body im w h)
       \<and> length (spec_header w h) = 12
       \<and> length (spec_header w h @ spec_body im w h) = 12 + w * h * 2
       \<and> (\<forall>y < h. \<forall>x < w.
            take 2 (drop (12 + 2 * (y * w + x)) (spec_header w h @ spec_body im w h))
              = spec_pixel im x y)"
proof -
  have len: "length (spec_header w h) = 12" by (simp add: spec_header_def)
  have "lvgl_buffers im = Inr (spec_header w h, spec_body im w h)"
    using assms by (simp add: lvgl_buffers_def lvgl_header_ok lvgl_body_ok)
  moreover have "\<forall>y < h. \<forall>x < w.
      take 2 (drop (12 + 2 * (y * w + x)) (spec_header w h @ spec_body im w h))
        = spec_pixel im x y"
  proof (intro allI impI)
    fix y x
    assume "y < h" "x < w"
    then have "take 2 (drop (2 * (y * w + x)) (spec_body im w h)) = spec_pixel im x y"
      by (intro spec_body_at)
    moreover have "drop (12 + 2 * (y * w + x)) (spec_header w h @ spec_body im w h)
        = drop (2 * (y * w + x)) (spec_body im w h)"
      using len by (simp del: mult_Suc_right distrib_left_numeral)
    ultimately show "take 2 (drop (12 + 2 * (y * w + x)) (spec_header w h @ spec_body im w h))
        = spec_pixel im x y"
      by (simp only:)
  qed
  ultimately show ?thesis by (simp add: len length_spec_body)
qed

theorem lvgl_buffers_format_witness:
  "lvgl_buffers red_blue
     = Inr ([0x19, 0x12, 0x00, 0x00, 0x02, 0x00, 0x01, 0x00, 0x04, 0x00, 0x00, 0x00],
            [0x00, 0xF8, 0x1F, 0x00])"
  using lvgl_buffers_format [of red_blue 2 1]
  by (simp add: red_blue_def spec_header_def spec_body_def spec_pixel_def to_rgb565_def upt_rec)

text \<open>
  An image 32768 wide and 1 high has dimensions that fit sixteen bits, but its
  stride does not, and the encoder raises instead of producing bytes.
\<close>

theorem lvgl_buffers_wide_image_raises:
  "fst (im_size wide_image) < 2 ^ 16 \<and> snd (im_size wide_image) < 2 ^ 16
   \<and> lvgl_buffers wide_image = Inl StructError"
  by (simp add: lvgl_buffers_def lvgl_header_def wide_image_def lvgl_stride_def
      pack_B_def pack_H_def)


section \<open>The name normalizer\<close>

lemma char_lower_dot: "char_lower c = CHR ''.'' \<longleftrightarrow> c = CHR ''.''"
proof
  assume a: "char_lower c = CHR ''.''"
  show "c = CHR ''.''"
  proof (rule ccontr)
    assume n: "c \<noteq> CHR ''.''"
    define k where "k = (of_char c :: nat)"
    from a n have up: "(65 \<le> k \<and> k \<le> 90) \<or> (192 \<le> k \<and> k \<le> 222 \<and> k \<noteq> 215)"
      and co: "char_of (k + 32) = CHR ''.''"
      by (auto simp: char_lower_def Let_def k_def split: if_splits)
    from co have "of_char (char_of (k + 32) :: char) = (of_char CHR ''.'' :: nat)" by simp
    then have "(k + 32) mod 256 = 46" by simp
    with up show False by auto
  qed
next
  assume "c = CHR ''.''"
  then show "char_lower c = CHR ''.''" by (simp add: char_lower_def)
qed

lemma recognized_iff: "str_lower ext \<in> set tile_extensions \<longleftrightarrow> spec_recognized ext"
  by (cases ext) (auto simp: spec_recognized_def tile_extensions_def str_lower_def char_lower_dot)

lemma spec_normalize_step:
  "spec_recognized (snd (os_path_splitext s)) \<Longrightarrow>
     spec_normalize s = spec_normalize (fst (os_path_splitext s))"
  by (subst spec_normalize.simps) simp

lemma spec_normalize_stop:
  "\<not> spec_recognized (snd (os_path_splitext s)) \<Longrightarrow> spec_normalize s = s"
  by (subst spec_normalize.simps) simp

lemma clean_loop_eq_spec: "clean_loop name name = spec_normalize name"
proof (induction name rule: spec_normalize.induct)
  case (1 s)
  show ?case
  proof (cases "spec_recognized (snd (os_path_splitext s))")
    case True
    then have "clean_loop s s = clean_loop (fst (os_path_splitext s)) (fst (os_path_splitext s))"
      by (subst clean_loop.simps) (simp add: recognized_iff)
    with True 1 show ?thesis by (simp add: spec_normalize_step)
  next
    case False
    then have "clean_loop s s = s"
      by (subst clean_loop.simps) (simp add: recognized_iff)
    with False show ?thesis by (simp add: spec_normalize_stop)
  qed
qed

lemma spec_normalize_stops: "\<not> spec_recognized (snd (os_path_splitext (spec_normalize s)))"
proof (induction s rule: spec_normalize.induct)
  case (1 s)
  then show ?case
    by (cases "spec_recognized (snd (os_path_splitext s))")
      (simp_all add: spec_normalize_step spec_normalize_stop)
qed

lemma clean_tile_name_eq_spec: "clean_tile_name s = spec_normalize s"
  by (simp add: clean_tile_name_def clean_loop_eq_spec)

text \<open>
  C8.  \<open>clean_tile_name\<close> is the normalizer of the specification: it strips the
  last extension as long as that extension is, without regard to case, one of
  \<open>.png\<close>, \<open>.bin\<close>, \<open>.jpg\<close>, \<open>.jpeg\<close>, and returns the name at the first
  extension that is not, or when there is none; so \<open>tile.png\<close> and
  \<open>tile.PNG.bin\<close> become \<open>tile\<close>, and \<open>tile.data\<close> stays.
\<close>

theorem clean_tile_name_strips_extensions:
  "clean_tile_name s = spec_normalize s
   \<and> clean_tile_name s =
       (if spec_recognized (snd (os_path_splitext s))
        then clean_tile_name (fst (os_path_splitext s)) else s)
   \<and> \<not> spec_recognized (snd (os_path_splitext (clean_tile_name s)))
   \<and> fst (os_path_splitext s) @ snd (os_path_splitext s) = s
   \<and> clean_tile_name ''tile.png'' = ''tile''
   \<and> clean_tile_name ''tile.PNG.bin'' = ''tile''
   \<and> clean_tile_name ''tile.data'' = ''tile.data''"
proof -
  have "clean_tile_name s =
       (if spec_recognized (snd (os_path_splitext s))
        then clean_tile_name (fst (os_path_splitext s)) else s)"
    unfolding clean_tile_name_eq_spec
    by (simp add: spec_normalize_step spec_normalize_stop)
  moreover have "clean_tile_name ''tile.png'' = ''tile''" by code_simp
  moreover have "clean_tile_name ''tile.PNG.bin'' = ''tile''" by code_simp
  moreover have "clean_tile_name ''tile.data'' = ''tile.data''" by code_simp
  ultimately show ?thesis
    using spec_normalize_stops [of s]
    by (simp only: clean_tile_name_eq_spec os_path_splitext_append simp_thms)
qed

theorem clean_tile_name_strips_extensions_witness:
  "clean_tile_name ''map.v2.JPeG.bin.Png'' = ''map.v2''
   \<and> spec_normalize ''map.v2.JPeG.bin.Png'' = ''map.v2''
   \<and> os_path_splitext ''map.v2.JPeG.bin.Png'' = (''map.v2.JPeG.bin'', ''.Png'')"
proof -
  have "clean_tile_name ''map.v2.JPeG.bin.Png'' = ''map.v2''" by code_simp
  moreover have "os_path_splitext ''map.v2.JPeG.bin.Png'' = (''map.v2.JPeG.bin'', ''.Png'')"
    by code_simp
  ultimately show ?thesis
    using clean_tile_name_strips_extensions [of "''map.v2.JPeG.bin.Png''"] by simp
qed

text \<open>
  C9.  The normalizer is idempotent: applied to its own result it returns that
  result.
\<close>

theorem clean_tile_name_idempotent: "clean_tile_name (clean_tile_name s) = clean_tile_name s"
proof -
  have "spec_normalize (spec_normalize s) = spec_normalize s"
    using spec_normalize_stops [of s] by (rule spec_normalize_stop)
  then show ?thesis by (simp add: clean_tile_name_eq_spec)
qed

theorem clean_tile_name_idempotent_witness:
  "clean_tile_name ''tile.PNG.bin'' = ''tile'' \<and> clean_tile_name ''tile'' = ''tile''"
proof -
  have "clean_tile_name ''tile.PNG.bin'' = ''tile''" by code_simp
  then show ?thesis
    using clean_tile_name_idempotent [of "''tile.PNG.bin''"] by simp
qed

section \<open>Tile-tree discovery\<close>

lemma str_endswith_slash: "str_endswith s ''/'' \<longleftrightarrow> s \<noteq> [] \<and> last s = CHR ''/''"
proof (cases s rule: rev_cases)
  case Nil
  then show ?thesis by (simp add: str_endswith_def)
next
  case (snoc xs x)
  then show ?thesis by (auto simp: str_endswith_def)
qed

lemma str_startswith_slash: "str_startswith b ''/'' \<longleftrightarrow> b \<noteq> [] \<and> hd b = CHR ''/''"
  by (cases b) (auto simp: str_startswith_def)

lemma is_name_no_leading_slash: "is_name n \<Longrightarrow> \<not> str_startswith n ''/''"
  by (cases n) (auto simp: is_name_def str_startswith_slash)

lemma join_step_plain: "\<not> str_startswith b ''/'' \<Longrightarrow> join_step p b = root_prefix p @ b"
  by (auto simp: join_step_def root_prefix_def str_endswith_slash)

lemma root_prefix_name:
  assumes "is_name a"
  shows "root_prefix (p @ a) = p @ a @ ''/''"
proof -
  from assms have "a \<noteq> []" and "last a \<in> set a" and "CHR ''/'' \<notin> set a"
    by (simp_all add: is_name_def)
  then have "last (p @ a) \<noteq> CHR ''/''" by (metis last_appendR)
  with \<open>a \<noteq> []\<close> show ?thesis by (simp add: root_prefix_def)
qed

lemma os_path_join_1: "is_name a \<Longrightarrow> os_path_join r [a] = root_prefix r @ a"
  by (simp add: os_path_join_def join_step_plain is_name_no_leading_slash)

lemma os_path_join_2:
  "is_name a \<Longrightarrow> is_name b \<Longrightarrow> os_path_join r [a, b] = root_prefix r @ a @ ''/'' @ b"
  by (simp add: os_path_join_def join_step_plain is_name_no_leading_slash root_prefix_name)

lemma os_path_join_3:
  "is_name a \<Longrightarrow> is_name b \<Longrightarrow> \<not> str_startswith c ''/'' \<Longrightarrow>
     os_path_join r [a, b, c] = root_prefix r @ a @ ''/'' @ b @ ''/'' @ c"
proof -
  assume a: "is_name a" and b: "is_name b" and c: "\<not> str_startswith c ''/''"
  have "root_prefix ((root_prefix r @ a @ ''/'') @ b) = (root_prefix r @ a @ ''/'') @ b @ ''/''"
    using b by (rule root_prefix_name)
  then show ?thesis using a b c
    by (simp add: os_path_join_def join_step_plain is_name_no_leading_slash root_prefix_name)
qed

lemma split_at_slash:
  "CHR ''/'' \<notin> set a \<Longrightarrow> CHR ''/'' \<notin> set a' \<Longrightarrow> a @ CHR ''/'' # r = a' @ CHR ''/'' # r' \<Longrightarrow>
     a = a' \<and> r = r'"
proof (induction a arbitrary: a')
  case Nil
  then show ?case by (cases a') auto
next
  case (Cons c a)
  then show ?case by (cases a') auto
qed

lemma join_3_inject:
  assumes "is_name a" "is_name b" "is_name a'" "is_name b'"
    and "root_prefix r @ a @ ''/'' @ b @ ''/'' @ c = root_prefix r @ a' @ ''/'' @ b' @ ''/'' @ c'"
  shows "a = a' \<and> b = b' \<and> c = c'"
proof -
  from assms(5) have "a @ CHR ''/'' # (b @ ''/'' @ c) = a' @ CHR ''/'' # (b' @ ''/'' @ c')" by simp
  with assms(1,3) have 1: "a = a'" and "b @ CHR ''/'' # c = b' @ CHR ''/'' # c'"
    using split_at_slash [of a a' "b @ ''/'' @ c" "b' @ ''/'' @ c'"] by (auto simp: is_name_def)
  with assms(2,4) have "b = b' \<and> c = c'"
    using split_at_slash [of b b' c c'] by (auto simp: is_name_def)
  with 1 show ?thesis by simp
qed

lemma char_isdigit_not_slash: "char_isdigit c \<Longrightarrow> c \<noteq> CHR ''/''"
  by (auto simp: char_isdigit_def)

lemma str_isdigit_name: "str_isdigit s \<Longrightarrow> is_name s"
  by (auto simp: str_isdigit_def is_name_def list_all_iff dest: char_isdigit_not_slash)

lemma for_yield_mem:
  "p \<in> set (fst (for_yield body xs)) \<Longrightarrow> \<exists>x \<in> set xs. p \<in> set (fst (body x))"
proof (induction xs)
  case Nil
  then show ?case by simp
next
  case (Cons x xs)
  then show ?case
    by (cases "body x"; cases "snd (body x)"; cases "for_yield body xs") auto
qed

lemma iter_y_files_mem:
  assumes "p \<in> set (fst (iter_y_files cfg zoom x ys))"
  shows "\<exists>y \<in> set ys. str_endswith (str_lower y) ''.png'' \<and>
           p = (os_path_join (input_root cfg) [zoom, x, y],
                os_path_join (output_root cfg) [zoom, x, clean_tile_name y @ ''.bin''])"
  using for_yield_mem [OF assms [unfolded iter_y_files_def]]
  by (auto simp: Let_def split: if_splits)

lemma iter_x_tiles_mem:
  assumes "p \<in> set (fst (iter_x_tiles cfg fs zoom zoom_path xs))"
  shows "\<exists>x \<in> set xs. \<exists>ys. os_path_isdir fs (os_path_join zoom_path [x]) \<and> str_isdigit x \<and>
           os_listdir fs (os_path_join zoom_path [x]) = Inr ys \<and>
           p \<in> set (fst (iter_y_files cfg zoom x ys))"
proof -
  from for_yield_mem [OF assms [unfolded iter_x_tiles_def]]
  obtain x where x: "x \<in> set xs"
    and p: "p \<in> set (fst (let x_path = os_path_join zoom_path [x]
          in if \<not> os_path_isdir fs x_path \<or> \<not> str_isdigit x then ([], None)
             else (case os_listdir fs x_path of
                     Inl e \<Rightarrow> ([], Some e)
                   | Inr y_files \<Rightarrow> iter_y_files cfg zoom x y_files)))"
    by auto
  show ?thesis
  proof (cases "os_listdir fs (os_path_join zoom_path [x])")
    case (Inl e)
    with p show ?thesis by (simp add: Let_def split: if_splits)
  next
    case (Inr ys)
    with p have "os_path_isdir fs (os_path_join zoom_path [x]) \<and> str_isdigit x \<and>
        p \<in> set (fst (iter_y_files cfg zoom x ys))"
      by (simp add: Let_def split: if_splits)
    with x Inr show ?thesis by blast
  qed
qed

lemma iter_tile_paths_mem:
  assumes "p \<in> set (fst (iter_tile_paths cfg fs))"
  shows "\<exists>zs zoom xs. os_listdir fs (input_root cfg) = Inr zs \<and> zoom \<in> set zs \<and>
           os_path_isdir fs (os_path_join (input_root cfg) [zoom]) \<and> str_isdigit zoom \<and>
           os_listdir fs (os_path_join (input_root cfg) [zoom]) = Inr xs \<and>
           p \<in> set (fst (iter_x_tiles cfg fs zoom (os_path_join (input_root cfg) [zoom]) xs))"
proof (cases "os_listdir fs (input_root cfg)")
  case (Inl e)
  with assms show ?thesis by (simp add: iter_tile_paths_def)
next
  case (Inr zs)
  with assms have "p \<in> set (fst (for_yield
            (\<lambda>zoom.
               let zoom_path = os_path_join (input_root cfg) [zoom]
               in if \<not> os_path_isdir fs zoom_path \<or> \<not> str_isdigit zoom then ([], None)
                  else (case os_listdir fs zoom_path of
                          Inl e \<Rightarrow> ([], Some e)
                        | Inr x_tiles \<Rightarrow> iter_x_tiles cfg fs zoom zoom_path x_tiles))
            (sort zs)))"
    by (simp add: iter_tile_paths_def)
  from for_yield_mem [OF this]
  obtain zoom where z: "zoom \<in> set zs"
    and p: "p \<in> set (fst (let zoom_path = os_path_join (input_root cfg) [zoom]
               in if \<not> os_path_isdir fs zoom_path \<or> \<not> str_isdigit zoom then ([], None)
                  else (case os_listdir fs zoom_path of
                          Inl e \<Rightarrow> ([], Some e)
                        | Inr x_tiles \<Rightarrow> iter_x_tiles cfg fs zoom zoom_path x_tiles)))"
    by auto
  show ?thesis
  proof (cases "os_listdir fs (os_path_join (input_root cfg) [zoom])")
    case (Inl e)
    with p show ?thesis by (simp add: Let_def split: if_splits)
  next
    case xs: (Inr xs)
    with p have "os_path_isdir fs (os_path_join (input_root cfg) [zoom]) \<and> str_isdigit zoom \<and>
        p \<in> set (fst (iter_x_tiles cfg fs zoom (os_path_join (input_root cfg) [zoom]) xs))"
      by (simp add: Let_def split: if_splits)
    with z Inr xs show ?thesis by blast
  qed
qed

text \<open>Names in a directory listing have no slash.\<close>

lemma rfind_tail_no_sep: "c \<notin> set (drop (nat (str_rfind s c + 1)) s)"
proof (cases "c \<in> set s")
  case False
  then show ?thesis by (auto dest: in_set_dropD)
next
  case True
  define t where "t = takeWhile (\<lambda>d. d \<noteq> c) (rev s)"
  define d where "d = dropWhile (\<lambda>d. d \<noteq> c) (rev s)"
  have "rev s = t @ d" by (simp add: t_def d_def)
  then have "rev (rev s) = rev (t @ d)" by (rule arg_cong)
  then have s: "s = rev d @ rev t" by simp
  then have len: "length s = length d + length t" by (metis length_append length_rev)
  have "nat (str_rfind s c + 1) = length s - length t"
    using True len by (simp add: str_rfind_def t_def)
  also have "\<dots> = length (rev d)" using len by simp
  finally have "drop (nat (str_rfind s c + 1)) s = drop (length (rev d)) (rev d @ rev t)"
    using s by simp
  then have "drop (nat (str_rfind s c + 1)) s = rev t" by simp
  moreover have "c \<notin> set t" unfolding t_def by (auto dest: set_takeWhileD)
  ultimately show ?thesis by simp
qed

lemma os_path_split_tail_no_slash: "CHR ''/'' \<notin> set (snd (os_path_split q))"
  using rfind_tail_no_sep [of "CHR ''/''" q] by (simp add: os_path_split_def Let_def)

lemma os_listdir_names:
  "os_listdir fs p = Inr ys \<Longrightarrow> y \<in> set ys \<Longrightarrow> CHR ''/'' \<notin> set y"
  using os_path_split_tail_no_slash
  by (auto simp: os_listdir_def dir_entries_def split: option.splits node.splits)

lemma spec_normalize_prefix: "\<exists>e. s = spec_normalize s @ e"
proof (induction s rule: spec_normalize.induct)
  case (1 s)
  show ?case
  proof (cases "spec_recognized (snd (os_path_splitext s))")
    case True
    with 1 obtain e where "fst (os_path_splitext s) = spec_normalize (fst (os_path_splitext s)) @ e"
      by blast
    then have "s = spec_normalize s @ (e @ snd (os_path_splitext s))"
      using True os_path_splitext_append [of s]
      by (metis append_assoc spec_normalize_step)
    then show ?thesis by blast
  next
    case False
    then show ?thesis by (simp add: spec_normalize_stop)
  qed
qed

lemma clean_tile_name_no_slash: "CHR ''/'' \<notin> set y \<Longrightarrow> CHR ''/'' \<notin> set (clean_tile_name y)"
  using spec_normalize_prefix [of y] by (metis Un_iff clean_tile_name_eq_spec set_append)

lemma bin_name_no_leading_slash:
  "CHR ''/'' \<notin> set y \<Longrightarrow> \<not> str_startswith (clean_tile_name y @ ''.bin'') ''/''"
  using clean_tile_name_no_slash [of y]
  by (cases "clean_tile_name y") (auto simp: str_startswith_slash)


lemma os_path_join_nested: "os_path_join (os_path_join r [a]) [b] = os_path_join r [a, b]"
  by (simp add: os_path_join_def)

lemma iter_tile_paths_elem:
  assumes "(src, dst) \<in> set (fst (iter_tile_paths cfg fs))"
  shows "\<exists>zoom x_tile y_file.
      src = os_path_join (input_root cfg) [zoom, x_tile, y_file]
    \<and> dst = os_path_join (output_root cfg) [zoom, x_tile, clean_tile_name y_file @ ''.bin'']
    \<and> str_isdigit zoom \<and> os_path_isdir fs (os_path_join (input_root cfg) [zoom])
    \<and> str_isdigit x_tile \<and> os_path_isdir fs (os_path_join (input_root cfg) [zoom, x_tile])
    \<and> str_endswith (str_lower y_file) ''.png'' \<and> CHR ''/'' \<notin> set y_file"
proof -
  from iter_tile_paths_mem [OF assms]
  obtain zoom xs where zoom: "str_isdigit zoom"
      "os_path_isdir fs (os_path_join (input_root cfg) [zoom])"
    and "(src, dst) \<in> set (fst (iter_x_tiles cfg fs zoom (os_path_join (input_root cfg) [zoom]) xs))"
    by blast
  from iter_x_tiles_mem [OF this(3)]
  obtain x_tile ys where x: "str_isdigit x_tile"
      "os_path_isdir fs (os_path_join (os_path_join (input_root cfg) [zoom]) [x_tile])"
    and ys: "os_listdir fs (os_path_join (os_path_join (input_root cfg) [zoom]) [x_tile]) = Inr ys"
    and "(src, dst) \<in> set (fst (iter_y_files cfg zoom x_tile ys))"
    by blast
  from iter_y_files_mem [OF this(4)]
  obtain y_file where y: "y_file \<in> set ys" "str_endswith (str_lower y_file) ''.png''"
    and p: "src = os_path_join (input_root cfg) [zoom, x_tile, y_file]"
      "dst = os_path_join (output_root cfg) [zoom, x_tile, clean_tile_name y_file @ ''.bin'']"
    by auto
  from os_listdir_names [OF ys y(1)] have "CHR ''/'' \<notin> set y_file" .
  with zoom x y p show ?thesis unfolding os_path_join_nested by blast
qed







text \<open>
  C4, as the code has it.  Two pairs that discovery yields with the same destination
  path belong to the same zoom and x directory and their file names have the same
  normalized name; pairs that differ in the zoom directory, the x directory or the
  normalized name have different destination paths.
\<close>

theorem shared_destination_same_tile_name:
  assumes "(s1, d) \<in> set (fst (iter_tile_paths cfg fs))"
    and "(s2, d) \<in> set (fst (iter_tile_paths cfg fs))"
  shows "\<exists>zoom x_tile y1 y2.
      s1 = os_path_join (input_root cfg) [zoom, x_tile, y1]
    \<and> s2 = os_path_join (input_root cfg) [zoom, x_tile, y2]
    \<and> clean_tile_name y1 = clean_tile_name y2
    \<and> d = os_path_join (output_root cfg) [zoom, x_tile, clean_tile_name y1 @ ''.bin'']"
proof -
  from iter_tile_paths_elem [OF assms(1)]
  obtain z1 x1 y1 where
    e1: "s1 = os_path_join (input_root cfg) [z1, x1, y1]"
      "d = os_path_join (output_root cfg) [z1, x1, clean_tile_name y1 @ ''.bin'']"
      "str_isdigit z1" "str_isdigit x1" "CHR ''/'' \<notin> set y1"
    by blast
  from iter_tile_paths_elem [OF assms(2)]
  obtain z2 x2 y2 where
    e2: "s2 = os_path_join (input_root cfg) [z2, x2, y2]"
      "d = os_path_join (output_root cfg) [z2, x2, clean_tile_name y2 @ ''.bin'']"
      "str_isdigit z2" "str_isdigit x2" "CHR ''/'' \<notin> set y2"
    by blast
  have n: "is_name z1" "is_name x1" "is_name z2" "is_name x2"
    using e1(3,4) e2(3,4) by (simp_all add: str_isdigit_name)
  have "root_prefix (output_root cfg) @ z1 @ ''/'' @ x1 @ ''/'' @ (clean_tile_name y1 @ ''.bin'')
      = root_prefix (output_root cfg) @ z2 @ ''/'' @ x2 @ ''/'' @ (clean_tile_name y2 @ ''.bin'')"
    using e1(2) e2(2) n e1(5) e2(5)
    by (simp add: os_path_join_3 bin_name_no_leading_slash)
  from join_3_inject [OF n(1,2,3,4) this]
  have "z1 = z2" "x1 = x2" "clean_tile_name y1 = clean_tile_name y2" by simp_all
  with e1(1,2) e2(1) show ?thesis by blast
qed

text \<open>
  Two files of one directory whose names differ only in the case of the extension
  are two tasks with one destination path.
\<close>

theorem case_variants_share_destination:
  "iter_tile_paths sample_roots case_tree
     = ([(''in/0/1/2.PNG'', ''out/0/1/2.bin''), (''in/0/1/2.png'', ''out/0/1/2.bin'')], None)"
  by code_simp

theorem shared_destination_same_tile_name_witness:
  "(''in/0/1/2.PNG'', ''out/0/1/2.bin'') \<in> set (fst (iter_tile_paths sample_roots case_tree))
   \<and> (''in/0/1/2.png'', ''out/0/1/2.bin'') \<in> set (fst (iter_tile_paths sample_roots case_tree))
   \<and> (\<exists>zoom x_tile y1 y2.
        ''in/0/1/2.PNG'' = os_path_join (input_root sample_roots) [zoom, x_tile, y1]
      \<and> ''in/0/1/2.png'' = os_path_join (input_root sample_roots) [zoom, x_tile, y2]
      \<and> clean_tile_name y1 = clean_tile_name y2
      \<and> ''out/0/1/2.bin''
           = os_path_join (output_root sample_roots) [zoom, x_tile, clean_tile_name y1 @ ''.bin''])
   \<and> (''in/0/1/2.PNG'', ''out/0/1/2.bin'') \<in> set (fst (iter_tile_paths slash_roots case_tree))
   \<and> (''in/0/1/2.png'', ''out/0/1/2.bin'') \<in> set (fst (iter_tile_paths slash_roots case_tree))
   \<and> (\<exists>zoom x_tile y1 y2.
        ''in/0/1/2.PNG'' = os_path_join (input_root slash_roots) [zoom, x_tile, y1]
      \<and> ''in/0/1/2.png'' = os_path_join (input_root slash_roots) [zoom, x_tile, y2]
      \<and> clean_tile_name y1 = clean_tile_name y2
      \<and> ''out/0/1/2.bin''
           = os_path_join (output_root slash_roots) [zoom, x_tile, clean_tile_name y1 @ ''.bin''])"
proof -
  have m: "(''in/0/1/2.PNG'', ''out/0/1/2.bin'') \<in> set (fst (iter_tile_paths sample_roots case_tree))"
    "(''in/0/1/2.png'', ''out/0/1/2.bin'') \<in> set (fst (iter_tile_paths sample_roots case_tree))"
    by code_simp+
  have n: "(''in/0/1/2.PNG'', ''out/0/1/2.bin'') \<in> set (fst (iter_tile_paths slash_roots case_tree))"
    "(''in/0/1/2.png'', ''out/0/1/2.bin'') \<in> set (fst (iter_tile_paths slash_roots case_tree))"
    by code_simp+
  from shared_destination_same_tile_name [OF m] shared_destination_same_tile_name [OF n] m n
  show ?thesis by blast
qed

section \<open>The serial scheduler\<close>

lemma reports_append: "reports (xs @ ys) = reports xs @ reports ys"
  by (simp add: reports_def map_filter_def)

lemma reports_Nil: "reports [] = []"
  by (simp add: reports_def map_filter_def)

lemma silentI:
  "(\<And>w r w'. s w = (r, w') \<Longrightarrow> \<exists>ls. stdout w' = stdout w @ ls \<and> reports ls = []) \<Longrightarrow> silent s"
  unfolding silent_def by blast

lemma silentD:
  "silent s \<Longrightarrow> s w = (r, w') \<Longrightarrow> \<exists>ls. stdout w' = stdout w @ ls \<and> reports ls = []"
  unfolding silent_def by blast

lemma silent_same_stdout:
  "(\<And>w r w'. s w = (r, w') \<Longrightarrow> stdout w' = stdout w) \<Longrightarrow> silent s"
  by (rule silentI) (metis append_Nil2 reports_Nil)

lemma silent_run_steps: "list_all silent ss \<Longrightarrow> silent (run_steps ss)"
proof (induction ss)
  case Nil
  show ?case by (rule silent_same_stdout) simp
next
  case (Cons s ss)
  then have s: "silent s" and ss: "silent (run_steps ss)" by simp_all
  show ?case
  proof (rule silentI)
    fix w r w'
    assume run: "run_steps (s # ss) w = (r, w')"
    obtain r1 w1 where s1: "s w = (r1, w1)" by (cases "s w")
    from silentD [OF s s1] obtain l1 where l1: "stdout w1 = stdout w @ l1" "reports l1 = []"
      by blast
    show "\<exists>ls. stdout w' = stdout w @ ls \<and> reports ls = []"
    proof (cases r1)
      case (Some e)
      with run s1 have "w' = w1" by simp
      with l1 show ?thesis by blast
    next
      case None
      with run s1 have "run_steps ss w1 = (r, w')" by simp
      from silentD [OF ss this] obtain l2 where "stdout w' = stdout w1 @ l2" "reports l2 = []"
        by blast
      with l1 have "stdout w' = stdout w @ (l1 @ l2) \<and> reports (l1 @ l2) = []"
        by (simp add: reports_append)
      then show ?thesis by blast
    qed
  qed
qed

lemma silent_makedirs_step: "silent (makedirs_step p)"
  by (rule silent_same_stdout) (auto simp: makedirs_step_def split: prod.splits)

lemma silent_rmdir_step: "silent (rmdir_step p)"
  by (rule silent_same_stdout) (auto simp: rmdir_step_def split: sum.splits)

lemma silent_open_wb: "silent (open_wb p)"
  by (rule silent_same_stdout)
    (auto simp: open_wb_def split: option.splits node.splits if_splits)

lemma silent_file_write: "silent (file_write p d)"
  by (rule silent_same_stdout)
    (auto simp: file_write_def Let_def split: option.splits node.splits)

lemma silent_print_fix: "silent (print_line (Print_Fix p))"
  by (rule silentI) (auto simp: print_line_def reports_def map_filter_def report_of_def)

lemma silent_remove_stray_dir: "silent (remove_stray_dir p)"
proof (rule silentI)
  fix w r w'
  assume a: "remove_stray_dir p w = (r, w')"
  show "\<exists>ls. stdout w' = stdout w @ ls \<and> reports ls = []"
  proof (cases "os_path_isdir (filesys w) p")
    case True
    have "silent (run_steps [print_line (Print_Fix p), rmdir_step p])"
      by (rule silent_run_steps) (simp add: silent_print_fix silent_rmdir_step)
    moreover from a True have "run_steps [print_line (Print_Fix p), rmdir_step p] w = (r, w')"
      by (simp add: remove_stray_dir_def)
    ultimately show ?thesis by (rule silentD)
  next
    case False
    with a have "w' = w" by (simp add: remove_stray_dir_def)
    then show ?thesis by (simp add: reports_Nil)
  qed
qed

lemma run_steps_snoc:
  "run_steps (ss @ [s]) w =
     (case run_steps ss w of (Some e, w1) \<Rightarrow> (Some e, w1) | (None, w1) \<Rightarrow> s w1)"
proof (induction ss arbitrary: w)
  case Nil
  show ?case by (cases "s w"; cases "fst (s w)") auto
next
  case (Cons a ss)
  show ?case by (cases "a w"; cases "fst (a w)") (auto simp: Cons)
qed

lemma make_lvgl_bin_reports:
  assumes "make_lvgl_bin io p b w = (r, w')"
  shows "\<exists>ls. stdout w' = stdout w @ ls \<and>
           reports ls = (case r of None \<Rightarrow> [(p, None)] | Some e \<Rightarrow> [])"
proof (cases "io (filesys w) p")
  case (Inl e)
  with assms show ?thesis by (auto simp: make_lvgl_bin_def reports_Nil)
next
  case (Inr im)
  show ?thesis
  proof (cases "lvgl_buffers im")
    case (Inl e)
    with Inr assms show ?thesis by (auto simp: make_lvgl_bin_def reports_Nil)
  next
    case bufs: (Inr hb)
    obtain header body where hb: "hb = (header, body)" by (cases hb)
    let ?quiet = "[makedirs_step (os_path_dirname b), remove_stray_dir b, open_wb b,
        file_write b header, file_write b body]"
    have q: "silent (run_steps ?quiet)"
      by (rule silent_run_steps)
        (simp add: silent_makedirs_step silent_remove_stray_dir silent_open_wb silent_file_write)
    obtain r1 w1 where r1: "run_steps ?quiet w = (r1, w1)" by (cases "run_steps ?quiet w")
    from silentD [OF q r1] obtain l1 where l1: "stdout w1 = stdout w @ l1" "reports l1 = []"
      by blast
    have "make_lvgl_bin io p b w = run_steps (?quiet @ [print_line (Print_OK p b)]) w"
      using Inr bufs hb by (simp add: make_lvgl_bin_def)
    with assms r1 have res:
      "(r, w') = (case r1 of Some e \<Rightarrow> (Some e, w1) | None \<Rightarrow> print_line (Print_OK p b) w1)"
      unfolding run_steps_snoc by (simp split: option.splits)
    show ?thesis
    proof (cases r1)
      case (Some e)
      with res l1 show ?thesis by auto
    next
      case None
      with res have "r = None" "stdout w' = stdout w1 @ [Print_OK p b]"
        by (simp_all add: print_line_def)
      with l1 have "stdout w' = stdout w @ (l1 @ [Print_OK p b])"
        "reports (l1 @ [Print_OK p b]) = [(p, None)]"
        by (simp_all add: reports_append) (simp add: reports_def map_filter_def report_of_def)
      with \<open>r = None\<close> show ?thesis by auto
    qed
  qed
qed

lemma run_task_reports:
  "\<exists>ls. stdout (run_task io (inp, outp) w) = stdout w @ ls \<and>
        reports ls = [(inp, fst (make_lvgl_bin io inp outp w))]"
proof -
  obtain r w' where m: "make_lvgl_bin io inp outp w = (r, w')"
    by (cases "make_lvgl_bin io inp outp w")
  from make_lvgl_bin_reports [OF m] obtain ls where
    ls: "stdout w' = stdout w @ ls" "reports ls = (case r of None \<Rightarrow> [(inp, None)] | Some e \<Rightarrow> [])"
    by blast
  show ?thesis
  proof (cases r)
    case None
    with m ls show ?thesis by (auto simp: run_task_def)
  next
    case (Some e)
    with m ls have "stdout (run_task io (inp, outp) w) = stdout w @ (ls @ [Print_Failed inp e])"
      "reports (ls @ [Print_Failed inp e]) = [(inp, Some e)]"
      by (simp_all add: run_task_def print_line_def reports_append)
        (simp add: reports_def map_filter_def report_of_def)
    with m Some show ?thesis by auto
  qed
qed

lemma serial_path_reports:
  "\<exists>ls. stdout (serial_path io tasks w) = stdout w @ ls \<and>
     reports ls =
       map (\<lambda>i. (fst (tasks ! i),
                 fst (make_lvgl_bin io (fst (tasks ! i)) (snd (tasks ! i))
                        (serial_path io (take i tasks) w))))
         [0..<length tasks]"
proof (induction tasks arbitrary: w)
  case Nil
  show ?case by (simp add: reports_Nil)
next
  case (Cons t tasks)
  obtain inp outp where t: "t = (inp, outp)" by (cases t)
  from run_task_reports [of io inp outp w] obtain l1 where
    l1: "stdout (run_task io t w) = stdout w @ l1"
      "reports l1 = [(inp, fst (make_lvgl_bin io inp outp w))]"
    unfolding t by blast
  from Cons [of "run_task io t w"] obtain l2 where
    l2: "stdout (serial_path io tasks (run_task io t w)) = stdout (run_task io t w) @ l2"
      "reports l2 =
         map (\<lambda>i. (fst (tasks ! i),
                 fst (make_lvgl_bin io (fst (tasks ! i)) (snd (tasks ! i))
                        (serial_path io (take i tasks) (run_task io t w)))))
           [0..<length tasks]"
    by blast
  have "stdout (serial_path io (t # tasks) w) = stdout w @ (l1 @ l2)"
    using l1 l2 by simp
  moreover have "reports (l1 @ l2) =
       map (\<lambda>i. (fst ((t # tasks) ! i),
                 fst (make_lvgl_bin io (fst ((t # tasks) ! i)) (snd ((t # tasks) ! i))
                        (serial_path io (take i (t # tasks)) w))))
         [0..<length (t # tasks)]"
    using l1(2) l2(2) by (simp add: reports_append t map_upt_Suc del: upt_Suc)
  ultimately show ?case by blast
qed

lemma serial_path_fold: "serial_path io tasks w = foldl (\<lambda>v t. run_task io t v) w tasks"
  by (induction tasks arbitrary: w) simp_all

text \<open>
  C6.  With \<open>jobs \<le> 1\<close> and a non-empty task list, \<open>convert_all_tiles\<close> runs
  the serial path and returns normally.  The serial path runs \<open>make_lvgl_bin\<close> on
  every task, once and in list order, each in the world that the tasks before it have
  left: when a task returns, the remaining tasks are run in the world it returns, with
  the tile it has written; when a task raises, the line \<open>[Error] Failed to convert\<close>
  with its source path and the exception is printed and the remaining tasks are run;
  and after the last task the world is returned.  The tasks are reported in list
  order, each once, with the outcome of \<open>make_lvgl_bin\<close>.
\<close>

theorem serial_path_runs_every_task:
  "serial_path io [] w = w
   \<and> (\<forall>inp outp rest w'.
         make_lvgl_bin io inp outp w = (None, w') \<longrightarrow>
         serial_path io ((inp, outp) # rest) w = serial_path io rest w')
   \<and> (\<forall>inp outp rest e w'.
         make_lvgl_bin io inp outp w = (Some e, w') \<longrightarrow>
         serial_path io ((inp, outp) # rest) w
           = serial_path io rest (w'\<lparr>stdout := stdout w' @ [Print_Failed inp e]\<rparr>))
   \<and> serial_path io tasks w = foldl (\<lambda>v t. run_task io t v) w tasks
   \<and> reports (drop (length (stdout w)) (stdout (serial_path io tasks w)))
     = map (\<lambda>i. (fst (tasks ! i),
                 fst (make_lvgl_bin io (fst (tasks ! i)) (snd (tasks ! i))
                        (serial_path io (take i tasks) w))))
         [0..<length tasks]
   \<and> (jobs \<le> 1 \<and> os_path_isdir (filesys w) (input_root cfg)
        \<and> iter_tile_paths cfg (filesys w) = (pairs, None)
        \<and> plan_tasks force pairs w = (planned, w1) \<and> planned \<noteq> [] \<longrightarrow>
      convert_all_tiles io pool cfg jobs force w
        = (None, serial_path io planned
                   (w1\<lparr>stdout := stdout w1 @ [Print_Converting (length planned) jobs]\<rparr>)))"
proof (intro conjI)
  show "serial_path io [] w = w" by simp
next
  show "\<forall>inp outp rest w'.
         make_lvgl_bin io inp outp w = (None, w') \<longrightarrow>
         serial_path io ((inp, outp) # rest) w = serial_path io rest w'"
    by (simp add: run_task_def)
next
  show "\<forall>inp outp rest e w'.
         make_lvgl_bin io inp outp w = (Some e, w') \<longrightarrow>
         serial_path io ((inp, outp) # rest) w
           = serial_path io rest (w'\<lparr>stdout := stdout w' @ [Print_Failed inp e]\<rparr>)"
    by (simp add: run_task_def print_line_def)
next
  show "serial_path io tasks w = foldl (\<lambda>v t. run_task io t v) w tasks"
    by (rule serial_path_fold)
next
  from serial_path_reports [of io tasks w]
  show "reports (drop (length (stdout w)) (stdout (serial_path io tasks w)))
     = map (\<lambda>i. (fst (tasks ! i),
                 fst (make_lvgl_bin io (fst (tasks ! i)) (snd (tasks ! i))
                        (serial_path io (take i tasks) w))))
         [0..<length tasks]"
    by auto
next
  show "jobs \<le> 1 \<and> os_path_isdir (filesys w) (input_root cfg)
        \<and> iter_tile_paths cfg (filesys w) = (pairs, None)
        \<and> plan_tasks force pairs w = (planned, w1) \<and> planned \<noteq> [] \<longrightarrow>
      convert_all_tiles io pool cfg jobs force w
        = (None, serial_path io planned
                   (w1\<lparr>stdout := stdout w1 @ [Print_Converting (length planned) jobs]\<rparr>))"
    by (simp add: convert_all_tiles_def print_line_def)
qed


theorem serial_path_runs_every_task_witness:
  "serial_path corrupt_first two_tasks sample_world
     = \<lparr>filesys = sample_tree @
          [(''out'', Directory), (''out/10'', Directory), (''out/10/3'', Directory),
           (''out/10/3/x.bin'',
            RegFile [0x19, 0x12, 0, 0, 2, 0, 1, 0, 4, 0, 0, 0, 0x00, 0xF8, 0x1F, 0x00])],
        free_space = 984,
        stdout = [Print_Failed ''in/0/1/2.png'' (ImageError ''corrupt''),
                  Print_OK ''in/10/3/x.bin.png'' ''out/10/3/x.bin'']\<rparr>
   \<and> reports (stdout (serial_path corrupt_first two_tasks sample_world))
     = [(''in/0/1/2.png'', Some (ImageError ''corrupt'')), (''in/10/3/x.bin.png'', None)]
   \<and> stdout (snd (convert_all_tiles corrupt_first no_pool sample_roots 1 False sample_world))
     = [Print_Converting 2 1, Print_Failed ''in/0/1/2.png'' (ImageError ''corrupt''),
        Print_OK ''in/10/3/x.bin.png'' ''out/10/3/x.bin'']"
proof -
  let ?failed = "sample_world\<lparr>stdout := stdout sample_world
      @ [Print_Failed ''in/0/1/2.png'' (ImageError ''corrupt'')]\<rparr>"
  let ?done = "\<lparr>filesys = sample_tree @
          [(''out'', Directory), (''out/10'', Directory), (''out/10/3'', Directory),
           (''out/10/3/x.bin'',
            RegFile [0x19, 0x12, 0, 0, 2, 0, 1, 0, 4, 0, 0, 0, 0x00, 0xF8, 0x1F, 0x00])],
        free_space = 984,
        stdout = [Print_Failed ''in/0/1/2.png'' (ImageError ''corrupt''),
                  Print_OK ''in/10/3/x.bin.png'' ''out/10/3/x.bin'']\<rparr>"
  note inst = serial_path_runs_every_task
    [where w = sample_world and io = corrupt_first and tasks = two_tasks and jobs = 1
       and cfg = sample_roots and pairs = two_tasks and force = False and planned = two_tasks
       and ?w1.0 = sample_world and pool = no_pool]
  have m1: "make_lvgl_bin corrupt_first ''in/0/1/2.png'' ''out/0/1/2.bin'' sample_world
      = (Some (ImageError ''corrupt''), sample_world)"
    by code_simp
  have m2: "make_lvgl_bin corrupt_first ''in/10/3/x.bin.png'' ''out/10/3/x.bin'' ?failed
      = (None, ?done)"
    by code_simp
  from inst m1 have "serial_path corrupt_first
        ((''in/0/1/2.png'', ''out/0/1/2.bin'') # [(''in/10/3/x.bin.png'', ''out/10/3/x.bin'')])
        sample_world
      = serial_path corrupt_first [(''in/10/3/x.bin.png'', ''out/10/3/x.bin'')] ?failed"
    by blast
  also from serial_path_runs_every_task [where w = ?failed and io = corrupt_first] m2
  have "serial_path corrupt_first [(''in/10/3/x.bin.png'', ''out/10/3/x.bin'')] ?failed
      = serial_path corrupt_first [] ?done"
    by blast
  also from serial_path_runs_every_task [where w = ?done and io = corrupt_first]
  have "serial_path corrupt_first [] ?done = ?done"
    by blast
  finally have run: "serial_path corrupt_first two_tasks sample_world = ?done"
    by (simp add: two_tasks_def)
  from inst have "reports (drop (length (stdout sample_world))
        (stdout (serial_path corrupt_first two_tasks sample_world)))
     = map (\<lambda>i. (fst (two_tasks ! i),
                 fst (make_lvgl_bin corrupt_first (fst (two_tasks ! i)) (snd (two_tasks ! i))
                        (serial_path corrupt_first (take i two_tasks) sample_world))))
         [0..<length two_tasks]"
    by blast
  moreover have "stdout sample_world = []" by (simp add: sample_world_def)
  ultimately have "reports (stdout (serial_path corrupt_first two_tasks sample_world))
     = map (\<lambda>i. (fst (two_tasks ! i),
                 fst (make_lvgl_bin corrupt_first (fst (two_tasks ! i)) (snd (two_tasks ! i))
                        (serial_path corrupt_first (take i two_tasks) sample_world))))
         [0..<length two_tasks]"
    by simp
  also have "\<dots> = [(''in/0/1/2.png'', Some (ImageError ''corrupt'')), (''in/10/3/x.bin.png'', None)]"
    by code_simp
  finally have r: "reports (stdout (serial_path corrupt_first two_tasks sample_world))
     = [(''in/0/1/2.png'', Some (ImageError ''corrupt'')), (''in/10/3/x.bin.png'', None)]" .
  have h: "(1::int) \<le> 1" "os_path_isdir (filesys sample_world) (input_root sample_roots)"
    "iter_tile_paths sample_roots (filesys sample_world) = (two_tasks, None)"
    "plan_tasks False two_tasks sample_world = (two_tasks, sample_world)" "two_tasks \<noteq> []"
    by code_simp+
  with inst have "convert_all_tiles corrupt_first no_pool sample_roots 1 False sample_world
        = (None, serial_path corrupt_first two_tasks
                   (sample_world\<lparr>stdout := stdout sample_world @ [Print_Converting (length two_tasks) 1]\<rparr>))"
    by blast
  moreover have "stdout (serial_path corrupt_first two_tasks
                   (sample_world\<lparr>stdout := stdout sample_world @ [Print_Converting (length two_tasks) 1]\<rparr>))
     = [Print_Converting 2 1, Print_Failed ''in/0/1/2.png'' (ImageError ''corrupt''),
        Print_OK ''in/10/3/x.bin.png'' ''out/10/3/x.bin'']"
    by code_simp
  ultimately show ?thesis using r run by simp
qed

section \<open>A single conversion\<close>

text \<open>
  A path that names an entry resolves to components that end in a proper name, so it
  is not an anchor, its canonical path is not empty and does not end in a slash, and
  the directory above it has another canonical path.
\<close>

lemma split_sep_ne: "split_sep c s \<noteq> []"
  by (induction s) (auto split: list.splits)

lemma split_sep_no_sep: "x \<in> set (split_sep c s) \<Longrightarrow> c \<notin> set x"
proof (induction s arbitrary: x)
  case Nil
  then show ?case by simp
next
  case (Cons a s)
  show ?case
  proof (cases "a = c")
    case True
    with Cons show ?thesis by auto
  next
    case False
    obtain w ws where sp: "split_sep c s = w # ws"
      using split_sep_ne [of c s] by (cases "split_sep c s") auto
    with Cons.prems False have "x = a # w \<or> x \<in> set ws" by simp
    then show ?thesis
    proof
      assume "x = a # w"
      moreover have "c \<notin> set w" using Cons.IH [of w] sp by simp
      ultimately show ?thesis using False by simp
    next
      assume "x \<in> set ws"
      then show ?thesis using Cons.IH [of x] sp by simp
    qed
  qed
qed

lemma names_entry_nonempty: "names_entry p \<Longrightarrow> p \<noteq> []"
  by (auto simp: names_entry_def)

lemma names_entry_components:
  assumes "names_entry p"
  obtains X n where "path_components p = X @ [n]" "n \<noteq> []" "n \<noteq> ''..''"
    "CHR ''/'' \<notin> set n"
proof -
  define S where "S = split_sep CHR ''/'' p"
  define F where "F = filter (\<lambda>c. c \<noteq> []) S"
  from assms obtain c r where rv: "rev F = c # r" and c: "c \<noteq> ''.''" "c \<noteq> ''..''"
    by (auto simp: names_entry_def F_def S_def split: list.splits)
  from rv have "rev (rev F) = rev (c # r)" by (rule arg_cong)
  then have F: "F = rev r @ [c]" by simp
  then have "c \<in> set F" by simp
  then have cS: "c \<in> set S" "c \<noteq> []" by (simp_all add: F_def)
  have "filter (\<lambda>c. c \<noteq> [] \<and> c \<noteq> ''.'') S = filter (\<lambda>c. c \<noteq> ''.'') F"
    by (simp add: F_def conj_commute)
  also have "\<dots> = filter (\<lambda>c. c \<noteq> ''.'') (rev r) @ [c]" using c by (simp add: F)
  finally have "path_components p
     = foldl (push_component (str_startswith p ''/'')) [] (filter (\<lambda>c. c \<noteq> ''.'') (rev r)) @ [c]"
    using c by (simp add: path_components_def S_def push_component_def)
  moreover have "CHR ''/'' \<notin> set c" using cS(1) unfolding S_def by (rule split_sep_no_sep)
  ultimately show ?thesis using that cS(2) c(2) by blast
qed

lemma names_entry_not_anchor: "names_entry p \<Longrightarrow> \<not> is_anchor p"
  by (erule names_entry_components) (simp add: is_anchor_def)

lemma join_components_snoc:
  "join_components (X @ [n]) = (if X = [] then n else join_components X @ ''/'' @ n)"
  by (induction X rule: join_components.induct) simp_all

lemma canonical_names_entry:
  assumes "names_entry p"
  shows "canonical p \<noteq> [] \<and> last (canonical p) \<noteq> CHR ''/''"
proof -
  from assms obtain X n where c: "path_components p = X @ [n]" "n \<noteq> []" "CHR ''/'' \<notin> set n"
    by (rule names_entry_components)
  from c(2,3) have "last n \<noteq> CHR ''/''" by (metis last_in_set)
  with c(1,2) show ?thesis by (simp add: canonical_def join_components_snoc)
qed

lemma os_path_dirname_shorter:
  assumes "c \<noteq> []" "last c \<noteq> CHR ''/''"
  shows "os_path_dirname c \<noteq> c"
proof -
  define i where "i = nat (str_rfind c CHR ''/'' + 1)"
  have i: "i < length c"
  proof (cases "CHR ''/'' \<in> set c")
    case False
    with assms(1) show ?thesis by (simp add: i_def str_rfind_def)
  next
    case True
    obtain x xs where r: "rev c = x # xs" using assms(1) by (cases "rev c") auto
    then have "x = hd (rev c)" by simp
    then have "x = last c" by (simp add: hd_rev)
    with assms(2) have "x \<noteq> CHR ''/''" by simp
    then have "takeWhile (\<lambda>d. d \<noteq> CHR ''/'') (x # xs) \<noteq> []" by simp
    then have "takeWhile (\<lambda>d. d \<noteq> CHR ''/'') (rev c) \<noteq> []" unfolding r .
    then obtain y ys where t: "takeWhile (\<lambda>d. d \<noteq> CHR ''/'') (rev c) = y # ys"
      by (cases "takeWhile (\<lambda>d. d \<noteq> CHR ''/'') (rev c)") auto
    have "length (takeWhile (\<lambda>d. d \<noteq> CHR ''/'') (rev c)) \<le> length (rev c)"
      by (rule length_takeWhile_le)
    then have "Suc (length ys) \<le> length c" by (simp add: t)
    moreover have "i = nat (int (length c) - int (Suc (length ys)))"
      using True by (simp add: i_def str_rfind_def t)
    ultimately show ?thesis by linarith
  qed
  have "length (os_path_dirname c) \<le> length (take i c)"
    using length_str_rstrip [of "take i c" "CHR ''/''"]
    by (simp add: os_path_dirname_def os_path_split_def Let_def i_def)
  with i have "length (os_path_dirname c) < length c" by simp
  then show ?thesis by auto
qed

lemma parent_differs: "names_entry p \<Longrightarrow> os_path_dirname (canonical p) \<noteq> canonical p"
  using canonical_names_entry [of p] by (simp add: os_path_dirname_shorter)

lemma fs_lookup_entry:
  "names_entry p \<Longrightarrow> fs_lookup fs p = map_of fs (canonical p)"
  by (simp add: fs_lookup_def names_entry_nonempty names_entry_not_anchor)

lemma parent_error_after_delete:
  assumes "names_entry p"
  shows "parent_error (AList.delete (canonical p) fs) p = parent_error fs p"
  using parent_differs [OF assms] by (simp add: parent_error_def node_at_def delete_conv')

lemma os_rmdir_empty:
  "os_path_isdir fs p \<Longrightarrow> names_entry p \<Longrightarrow> dir_entries fs p = [] \<Longrightarrow>
     os_rmdir fs p = Inr (AList.delete (canonical p) fs)"
  by (simp add: os_rmdir_def os_path_isdir_def)

lemma remove_stray_dir_empty:
  assumes "os_path_isdir (filesys w) p" "names_entry p" "dir_entries (filesys w) p = []"
  shows "remove_stray_dir p w
     = (None, w\<lparr>filesys := AList.delete (canonical p) (filesys w),
                stdout := stdout w @ [Print_Fix p]\<rparr>)"
  using assms
  by (simp add: remove_stray_dir_def print_line_def rmdir_step_def os_rmdir_empty)

lemma open_wb_fresh:
  assumes "\<not> needs_directory p" "map_of (filesys w) (canonical p) = None"
    "parent_error (filesys w) p = None"
  shows "open_wb p w
     = (None, w\<lparr>filesys := AList.update (canonical p) (RegFile []) (filesys w)\<rparr>)"
proof -
  from assms(1) have n: "names_entry p" by (simp add: needs_directory_def)
  with assms show ?thesis
    by (simp add: open_wb_def fs_lookup_entry names_entry_nonempty)
qed

lemma file_write_fits:
  assumes "names_entry p" "map_of (filesys w) (canonical p) = Some (RegFile old)"
    "length d \<le> free_space w"
  shows "file_write p d w
     = (None, w\<lparr>filesys := AList.update (canonical p) (RegFile (old @ d)) (filesys w),
                free_space := free_space w - length d\<rparr>)"
  using assms by (simp add: file_write_def Let_def min_def fs_lookup_entry)

text \<open>
  C5, as the code has it.  When the image decodes and encodes, the directories above
  the destination are in place, and the destination path names an entry that is an
  empty directory, \<open>make_lvgl_bin\<close> prints the \<open>[Fix]\<close> line, removes the
  directory, writes the complete tile to the destination and prints \<open>[OK]\<close>; the
  task is not reported as failed.
\<close>

theorem stray_empty_directory_is_replaced:
  assumes "image_open (filesys w) png_path = Inr im"
    and "im_size im = (wd, ht)" "wd < 2 ^ 15" "ht < 2 ^ 16"
    and "os_makedirs (filesys w) (os_path_dirname bin_path) = (None, made)"
    and "os_path_isdir made bin_path" "dir_entries made bin_path = []"
    and "parent_error made bin_path = None" "\<not> needs_directory bin_path"
    and "12 + wd * ht * 2 \<le> free_space w"
  shows "make_lvgl_bin image_open png_path bin_path w
     = (None,
        w\<lparr>filesys := AList.update (canonical bin_path)
                        (RegFile (spec_header wd ht @ spec_body im wd ht))
                        (AList.delete (canonical bin_path) made),
          free_space := free_space w - (12 + wd * ht * 2),
          stdout := stdout w @ [Print_Fix bin_path, Print_OK png_path bin_path]\<rparr>)
   \<and> run_task image_open (png_path, bin_path) w
     = w\<lparr>filesys := AList.update (canonical bin_path)
                        (RegFile (spec_header wd ht @ spec_body im wd ht))
                        (AList.delete (canonical bin_path) made),
          free_space := free_space w - (12 + wd * ht * 2),
          stdout := stdout w @ [Print_Fix bin_path, Print_OK png_path bin_path]\<rparr>"
proof -
  let ?h = "spec_header wd ht" and ?b = "spec_body im wd ht"
  let ?c = "canonical bin_path"
  have n: "names_entry bin_path" using assms(9) by (simp add: needs_directory_def)
  have bufs: "lvgl_buffers im = Inr (?h, ?b)"
    using assms(2-4) by (simp add: lvgl_buffers_def lvgl_header_ok lvgl_body_ok)
  have lh: "length ?h = 12" by (simp add: spec_header_def)
  have lb: "length ?b = wd * ht * 2" by (rule length_spec_body)
  define w1 where "w1 = w\<lparr>filesys := made\<rparr>"
  define w2 where "w2 = w1\<lparr>filesys := AList.delete ?c made, stdout := stdout w @ [Print_Fix bin_path]\<rparr>"
  define w3 where "w3 = w2\<lparr>filesys := AList.update ?c (RegFile []) (AList.delete ?c made)\<rparr>"
  define w4 where "w4 = w3\<lparr>filesys := AList.update ?c (RegFile ?h) (AList.delete ?c made),
      free_space := free_space w - 12\<rparr>"
  define w5 where "w5 = w4\<lparr>filesys := AList.update ?c (RegFile (?h @ ?b)) (AList.delete ?c made),
      free_space := free_space w - (12 + wd * ht * 2)\<rparr>"
  have s1: "makedirs_step (os_path_dirname bin_path) w = (None, w1)"
    using assms(5) by (simp add: makedirs_step_def w1_def)
  have s2: "remove_stray_dir bin_path w1 = (None, w2)"
    using remove_stray_dir_empty [of w1 bin_path] assms(6,7) n by (simp add: w1_def w2_def)
  have s3: "open_wb bin_path w2 = (None, w3)"
    using open_wb_fresh [of bin_path w2] parent_error_after_delete [OF n, of made] assms(8,9)
    by (simp add: w2_def w3_def delete_conv')
  have s4: "file_write bin_path ?h w3 = (None, w4)"
    using file_write_fits [of bin_path w3 "[]" ?h] assms(10) lh n
    by (simp add: w3_def w4_def w2_def w1_def update_conv')
  have s5: "file_write bin_path ?b w4 = (None, w5)"
    using file_write_fits [of bin_path w4 ?h ?b] assms(10) lb n
    by (simp add: w4_def w5_def w3_def w2_def w1_def update_conv')
  have "make_lvgl_bin image_open png_path bin_path w
      = print_line (Print_OK png_path bin_path) w5"
    using assms(1) bufs s1 s2 s3 s4 s5 by (simp add: make_lvgl_bin_def print_line_def)
  also have "\<dots> = (None,
        w\<lparr>filesys := AList.update ?c (RegFile (?h @ ?b)) (AList.delete ?c made),
          free_space := free_space w - (12 + wd * ht * 2),
          stdout := stdout w @ [Print_Fix bin_path, Print_OK png_path bin_path]\<rparr>)"
    by (simp add: print_line_def w5_def w4_def w3_def w2_def w1_def)
  finally have m: "make_lvgl_bin image_open png_path bin_path w = (None,
        w\<lparr>filesys := AList.update ?c (RegFile (?h @ ?b)) (AList.delete ?c made),
          free_space := free_space w - (12 + wd * ht * 2),
          stdout := stdout w @ [Print_Fix bin_path, Print_OK png_path bin_path]\<rparr>)" .
  then show ?thesis by (simp add: run_task_def)
qed

theorem stray_empty_directory_is_replaced_witness:
  "os_path_isdir (filesys stray_empty_world) ''out/0/1/2.bin''
   \<and> make_lvgl_bin always_red_blue ''in/0/1/2.png'' ''out/0/1/2.bin'' stray_empty_world
     = (None,
        \<lparr>filesys = out_dirs @
           [(''out/0/1/2.bin'',
             RegFile [0x19, 0x12, 0, 0, 2, 0, 1, 0, 4, 0, 0, 0, 0x00, 0xF8, 0x1F, 0x00])],
         free_space = 984,
         stdout = [Print_Fix ''out/0/1/2.bin'', Print_OK ''in/0/1/2.png'' ''out/0/1/2.bin'']\<rparr>)"
proof -
  have h0: "always_red_blue (filesys stray_empty_world) ''in/0/1/2.png'' = Inr red_blue"
    "im_size red_blue = (2, 1)" "(2::nat) < 2 ^ 15" "(1::nat) < 2 ^ 16"
    by (simp_all add: always_red_blue_def red_blue_def)
  have h: "os_makedirs (filesys stray_empty_world) (os_path_dirname ''out/0/1/2.bin'')
       = (None, filesys stray_empty_world)"
    "os_path_isdir (filesys stray_empty_world) ''out/0/1/2.bin''"
    "dir_entries (filesys stray_empty_world) ''out/0/1/2.bin'' = []"
    "parent_error (filesys stray_empty_world) ''out/0/1/2.bin'' = None"
    "\<not> needs_directory ''out/0/1/2.bin''"
    "12 + 2 * 1 * 2 \<le> free_space stray_empty_world"
    by code_simp+
  have e: "stray_empty_world\<lparr>filesys := AList.update (canonical ''out/0/1/2.bin'')
             (RegFile (spec_header 2 1 @ spec_body red_blue 2 1))
             (AList.delete (canonical ''out/0/1/2.bin'') (filesys stray_empty_world)),
          free_space := free_space stray_empty_world - (12 + 2 * 1 * 2),
          stdout := stdout stray_empty_world
             @ [Print_Fix ''out/0/1/2.bin'', Print_OK ''in/0/1/2.png'' ''out/0/1/2.bin'']\<rparr>
     = \<lparr>filesys = out_dirs @
           [(''out/0/1/2.bin'',
             RegFile [0x19, 0x12, 0, 0, 2, 0, 1, 0, 4, 0, 0, 0, 0x00, 0xF8, 0x1F, 0x00])],
         free_space = 984,
         stdout = [Print_Fix ''out/0/1/2.bin'', Print_OK ''in/0/1/2.png'' ''out/0/1/2.bin'']\<rparr>"
    by code_simp
  from stray_empty_directory_is_replaced
    [where image_open = always_red_blue and w = stray_empty_world and im = red_blue
       and made = "filesys stray_empty_world", OF h0 h] h(2)
  show ?thesis
    unfolding e by simp
qed

text \<open>
  When the directory at the destination path has an entry, \<open>os.rmdir\<close> raises, the
  directory stays, and the task is reported as failed.
\<close>

theorem stray_full_directory_fails:
  "os_path_isdir (filesys stray_full_world) ''out/0/1/2.bin''
   \<and> run_task always_red_blue (''in/0/1/2.png'', ''out/0/1/2.bin'') stray_full_world
     = stray_full_world
         \<lparr>stdout := [Print_Fix ''out/0/1/2.bin'',
                     Print_Failed ''in/0/1/2.png'' (DirectoryNotEmpty ''out/0/1/2.bin'')]\<rparr>"
  by code_simp

lemma run_steps_Cons_None:
  assumes "run_steps (s # ss) w = (None, w')"
  obtains w1 where "s w = (None, w1)" "run_steps ss w1 = (None, w')"
  using assms by (cases "s w"; cases "fst (s w)") auto

lemma open_wb_None:
  "open_wb p w = (None, w1) \<Longrightarrow>
     map_of (filesys w1) (canonical p) = Some (RegFile []) \<and> \<not> needs_directory p"
  by (auto simp: open_wb_def update_conv' split: option.splits node.splits if_splits)

lemma file_write_None:
  assumes "file_write p d w = (None, w1)"
    "map_of (filesys w) (canonical p) = Some (RegFile old)"
  shows "map_of (filesys w1) (canonical p) = Some (RegFile (old @ d))"
proof -
  from assms(1) have l: "fs_lookup (filesys w) p = map_of (filesys w) (canonical p)"
    by (auto simp: file_write_def fs_lookup_def split: if_splits option.splits)
  from assms have "\<not> min (length d) (free_space w) < length d"
    by (auto simp: file_write_def Let_def l split: if_splits)
  then have "take (min (length d) (free_space w)) d = d" by simp
  with assms show ?thesis
    by (auto simp: file_write_def Let_def l update_conv' split: if_splits)
qed

lemma print_line_filesys: "print_line l w = (r, w1) \<Longrightarrow> filesys w1 = filesys w"
  by (auto simp: print_line_def)

text \<open>
  C3, as the code has it.  Both buffers are complete before the destination is
  opened: when decoding raises, or when encoding raises, \<open>make_lvgl_bin\<close> raises
  with the world as it was, so nothing has been written; and when \<open>make_lvgl_bin\<close>
  returns normally the destination is a regular file that holds the header followed
  by the whole body.
\<close>

theorem buffers_complete_before_open:
  "(image_open (filesys w) png_path = Inl e \<longrightarrow>
      make_lvgl_bin image_open png_path bin_path w = (Some e, w))
   \<and> (image_open (filesys w) png_path = Inr im \<and> lvgl_buffers im = Inl e \<longrightarrow>
      make_lvgl_bin image_open png_path bin_path w = (Some e, w))
   \<and> (make_lvgl_bin image_open png_path bin_path w = (None, w') \<longrightarrow>
      (\<exists>im header body.
          image_open (filesys w) png_path = Inr im \<and> lvgl_buffers im = Inr (header, body)
        \<and> map_of (filesys w') (canonical bin_path) = Some (RegFile (header @ body))
        \<and> os_path_isfile (filesys w') bin_path))"
proof (intro conjI impI)
  assume "image_open (filesys w) png_path = Inl e"
  then show "make_lvgl_bin image_open png_path bin_path w = (Some e, w)"
    by (simp add: make_lvgl_bin_def)
next
  assume "image_open (filesys w) png_path = Inr im \<and> lvgl_buffers im = Inl e"
  then show "make_lvgl_bin image_open png_path bin_path w = (Some e, w)"
    by (simp add: make_lvgl_bin_def)
next
  assume ok: "make_lvgl_bin image_open png_path bin_path w = (None, w')"
  then obtain im where im: "image_open (filesys w) png_path = Inr im"
    by (cases "image_open (filesys w) png_path") (auto simp: make_lvgl_bin_def)
  with ok obtain header body where hb: "lvgl_buffers im = Inr (header, body)"
    by (cases "lvgl_buffers im") (auto simp: make_lvgl_bin_def)
  from ok im hb have run: "run_steps
       [makedirs_step (os_path_dirname bin_path), remove_stray_dir bin_path, open_wb bin_path,
        file_write bin_path header, file_write bin_path body,
        print_line (Print_OK png_path bin_path)] w = (None, w')"
    by (simp add: make_lvgl_bin_def)
  from run obtain w1 where r1: "run_steps
       [remove_stray_dir bin_path, open_wb bin_path,
        file_write bin_path header, file_write bin_path body,
        print_line (Print_OK png_path bin_path)] w1 = (None, w')"
    by (rule run_steps_Cons_None)
  from r1 obtain w2 where r2: "run_steps
       [open_wb bin_path, file_write bin_path header, file_write bin_path body,
        print_line (Print_OK png_path bin_path)] w2 = (None, w')"
    by (rule run_steps_Cons_None)
  from r2 obtain w3 where o: "open_wb bin_path w2 = (None, w3)" and r3: "run_steps
       [file_write bin_path header, file_write bin_path body,
        print_line (Print_OK png_path bin_path)] w3 = (None, w')"
    by (rule run_steps_Cons_None)
  from r3 obtain w4 where h: "file_write bin_path header w3 = (None, w4)" and r4: "run_steps
       [file_write bin_path body, print_line (Print_OK png_path bin_path)] w4 = (None, w')"
    by (rule run_steps_Cons_None)
  from r4 obtain w5 where b: "file_write bin_path body w4 = (None, w5)" and r5: "run_steps
       [print_line (Print_OK png_path bin_path)] w5 = (None, w')"
    by (rule run_steps_Cons_None)
  from r5 have p: "filesys w' = filesys w5"
    by (simp add: print_line_def) auto
  from open_wb_None [OF o] have o3: "map_of (filesys w3) (canonical bin_path) = Some (RegFile [])"
    and nd: "\<not> needs_directory bin_path" by simp_all
  from file_write_None [OF h o3]
  have "map_of (filesys w4) (canonical bin_path) = Some (RegFile header)"
    by simp
  from file_write_None [OF b this] p
  have f: "map_of (filesys w') (canonical bin_path) = Some (RegFile (header @ body))" by simp
  from nd have "names_entry bin_path" by (simp add: needs_directory_def)
  then have "fs_lookup (filesys w') bin_path = Some (RegFile (header @ body))"
    using f by (simp add: fs_lookup_entry)
  with nd have "os_path_isfile (filesys w') bin_path" by (simp add: os_path_isfile_def)
  with im hb f show "\<exists>im header body.
          image_open (filesys w) png_path = Inr im \<and> lvgl_buffers im = Inr (header, body)
        \<and> map_of (filesys w') (canonical bin_path) = Some (RegFile (header @ body))
        \<and> os_path_isfile (filesys w') bin_path"
    by blast
qed

theorem buffers_complete_before_open_witness:
  "make_lvgl_bin always_wide ''in/0/1/2.png'' ''out/0/1/2.bin'' tight_world
     = (Some StructError, tight_world)"
proof -
  have "always_wide (filesys tight_world) ''in/0/1/2.png'' = Inr wide_image
      \<and> lvgl_buffers wide_image = Inl StructError"
    by (simp add: always_wide_def lvgl_buffers_def lvgl_header_def wide_image_def
        lvgl_stride_def pack_B_def pack_H_def)
  with buffers_complete_before_open
    [where image_open = always_wide and w = tight_world and im = wide_image
       and png_path = "''in/0/1/2.png''" and e = StructError]
  show ?thesis by blast
qed

text \<open>
  The file is opened and then written in two writes.  With room for 13 bytes the
  header and one byte of the body are written, the second write raises, and the
  destination is left holding 13 of the 16 bytes of the tile.
\<close>

theorem write_failure_leaves_partial_file:
  "make_lvgl_bin always_red_blue ''in/0/1/2.png'' ''out/0/1/2.bin'' tight_world
     = (Some (NoSpaceLeft ''out/0/1/2.bin''),
        \<lparr>filesys = out_dirs @
           [(''out/0/1/2.bin'', RegFile [0x19, 0x12, 0, 0, 2, 0, 1, 0, 4, 0, 0, 0, 0x00])],
         free_space = 0, stdout = []\<rparr>)
   \<and> lvgl_buffers red_blue
     = Inr ([0x19, 0x12, 0, 0, 2, 0, 1, 0, 4, 0, 0, 0], [0x00, 0xF8, 0x1F, 0x00])"
proof -
  have "lvgl_buffers red_blue
     = Inr ([0x19, 0x12, 0, 0, 2, 0, 1, 0, 4, 0, 0, 0], [0x00, 0xF8, 0x1F, 0x00])"
    by (simp add: lvgl_buffers_def lvgl_header_def lvgl_body_def lvgl_pixel_def red_blue_def
        lvgl_stride_def pack_B_def pack_H_def to_rgb565_def upt_rec)
  moreover have "make_lvgl_bin always_red_blue ''in/0/1/2.png'' ''out/0/1/2.bin'' tight_world
     = (Some (NoSpaceLeft ''out/0/1/2.bin''),
        \<lparr>filesys = out_dirs @
           [(''out/0/1/2.bin'', RegFile [0x19, 0x12, 0, 0, 2, 0, 1, 0, 4, 0, 0, 0, 0x00])],
         free_space = 0, stdout = []\<rparr>)"
    by code_simp
  ultimately show ?thesis by simp
qed

end
